theory Spec2Isabelle
  imports Main "HOL-Library.AList" "HOL-Library.Char_ord" "HOL-Library.List_Lexorder"
begin

section \<open>Prompt Studio: the category store and the rendering test\<close>

text \<open>
  The development follows \<^verbatim>\<open>src/models.py\<close> and \<^verbatim>\<open>src/storage.py\<close>. A Python
  \<open>str\<close> is the \<open>string\<close> of its UTF-8 bytes, a lone surrogate being kept as the three
  bytes the generalised encoding gives it; a Python \<open>dict\<close> is an association list in
  insertion order (its keys are distinct in every value Python can build), \<open>None\<close> is
  \<open>None\<close>, and an exception is a value of \<open>py_error\<close>.
\<close>

subsection \<open>Exceptions\<close>

text \<open>
  \<open>OSError\<close> and \<open>ValueError\<close> carry the message \<open>str\<close> gives; the message of the
  others is never asked for.
\<close>

datatype py_error =
    OSError string
  | UnicodeDecodeError
  | UnicodeEncodeError
  | JSONDecodeError
  | AttributeError
  | TypeError
  | ValidationError
  | ValueError string

fun str_of_error :: "py_error \<Rightarrow> string" where
  "str_of_error (OSError msg) = msg"
| "str_of_error (ValueError msg) = msg"
| "str_of_error e = []"

subsection \<open>JSON documents\<close>

text \<open>
  What \<^verbatim>\<open>json.load\<close> returns and \<^verbatim>\<open>json.dump\<close> accepts: \<open>JObj\<close> is a Python
  \<open>dict\<close> with string keys, \<open>JFloat\<close> carries the literal of a number that is not an
  integer.
\<close>

datatype json =
    JNull
  | JBool bool
  | JInt int
  | JFloat string
  | JStr string
  | JList "json list"
  | JObj "(string \<times> json) list"

text \<open>
  What \<^verbatim>\<open>json.dump(data, f, indent=2, ensure_ascii=False)\<close> can write to a UTF-8
  file: a \<open>str\<close> without surrogate (in these bytes a surrogate is \<open>0xED\<close> followed by
  a byte from \<open>0xA0\<close> on) and an \<open>int\<close> of at most 4300 digits, the limit of the
  conversion of an \<open>int\<close> to text. On anything else it raises, having written a part
  of the document.
\<close>

fun has_surrogate :: "string \<Rightarrow> bool" where
  "has_surrogate (c # d # r) \<longleftrightarrow> (c = CHR 0xED \<and> CHR 0xA0 \<le> d) \<or> has_surrogate (d # r)"
| "has_surrogate r \<longleftrightarrow> False"

definition encodable :: "string \<Rightarrow> bool" where
  "encodable t \<longleftrightarrow> \<not> has_surrogate t"

definition int_repr_ok :: "int \<Rightarrow> bool" where
  "int_repr_ok i \<longleftrightarrow> \<bar>i\<bar> < 10 ^ 4300"

fun dumpable :: "json \<Rightarrow> bool" where
  "dumpable JNull \<longleftrightarrow> True"
| "dumpable (JBool b) \<longleftrightarrow> True"
| "dumpable (JInt i) \<longleftrightarrow> int_repr_ok i"
| "dumpable (JFloat x) \<longleftrightarrow> True"
| "dumpable (JStr t) \<longleftrightarrow> encodable t"
| "dumpable (JList js) \<longleftrightarrow> (\<forall>j\<in>set js. dumpable j)"
| "dumpable (JObj kv) \<longleftrightarrow> (\<forall>(k, v)\<in>set kv. encodable k \<and> dumpable v)"

subsection \<open>The models of models.py\<close>

record PromptTemplate =
  t_content :: string
  t_description :: "string option"
  t_variables :: "string list"
  t_model :: "string option"
  t_max_tokens :: "int option"

record PromptCategory =
  c_version :: string
  c_category :: string
  c_description :: string
  c_templates :: "(string \<times> PromptTemplate) list"

text \<open>
  Two things the source leaves to its runtime. Pydantic validates a field value of the
  declared JSON type as it is; what it does with a value of another type (reject it, or
  coerce it) differs between its versions, so it is a parameter here: \<open>lax_str\<close>,
  \<open>lax_int\<close> and \<open>lax_str_list\<close> are asked only for such values. The order in which
  Python iterates over a set of strings depends on their hashes and on how the set was
  built: \<open>list_of_set xs\<close> is \<^verbatim>\<open>list(set(xs))\<close> and \<open>list_of_diff xs ys\<close> is
  \<^verbatim>\<open>list(set(xs) - set(ys))\<close>, each a listing of its set without repetition.
\<close>

record runtime =
  lax_str :: "json \<Rightarrow> string option"
  lax_int :: "json \<Rightarrow> int option"
  lax_str_list :: "json \<Rightarrow> string list option"
  list_of_set :: "string list \<Rightarrow> string list"
  list_of_diff :: "string list \<Rightarrow> string list \<Rightarrow> string list"

definition valid_iter :: "runtime \<Rightarrow> bool" where
  "valid_iter rt \<longleftrightarrow>
     (\<forall>xs. set (list_of_set rt xs) = set xs \<and> distinct (list_of_set rt xs))
     \<and> (\<forall>xs ys. set (list_of_diff rt xs ys) = set xs - set ys \<and> distinct (list_of_diff rt xs ys))"

definition of_opt :: "'a option \<Rightarrow> py_error + 'a" where
  "of_opt x = (case x of None \<Rightarrow> Inl ValidationError | Some v \<Rightarrow> Inr v)"

text \<open>A field declared \<open>str\<close>.\<close>

definition validate_str :: "runtime \<Rightarrow> json \<Rightarrow> py_error + string" where
  "validate_str rt j =
     (case j of JStr s \<Rightarrow> Inr s | JNull \<Rightarrow> Inl ValidationError | _ \<Rightarrow> of_opt (lax_str rt j))"

text \<open>A field declared \<open>Optional[str]\<close>.\<close>

definition validate_opt_str :: "runtime \<Rightarrow> json \<Rightarrow> py_error + string option" where
  "validate_opt_str rt j =
     (case j of JNull \<Rightarrow> Inr None | JStr s \<Rightarrow> Inr (Some s)
      | _ \<Rightarrow> (case lax_str rt j of None \<Rightarrow> Inl ValidationError | Some s \<Rightarrow> Inr (Some s)))"

text \<open>A field declared \<open>Optional[int]\<close>.\<close>

definition validate_opt_int :: "runtime \<Rightarrow> json \<Rightarrow> py_error + int option" where
  "validate_opt_int rt j =
     (case j of JNull \<Rightarrow> Inr None | JInt i \<Rightarrow> Inr (Some i)
      | _ \<Rightarrow> (case lax_int rt j of None \<Rightarrow> Inl ValidationError | Some i \<Rightarrow> Inr (Some i)))"

text \<open>A field declared \<open>List[str]\<close>.\<close>

fun the_strs :: "json list \<Rightarrow> string list option" where
  "the_strs [] = Some []"
| "the_strs (JStr s # js) = (case the_strs js of None \<Rightarrow> None | Some ss \<Rightarrow> Some (s # ss))"
| "the_strs (_ # js) = None"

definition validate_str_list :: "runtime \<Rightarrow> json \<Rightarrow> py_error + string list" where
  "validate_str_list rt j =
     (case j of
        JList js \<Rightarrow> (case the_strs js of Some ss \<Rightarrow> Inr ss | None \<Rightarrow> of_opt (lax_str_list rt j))
      | JNull \<Rightarrow> Inl ValidationError
      | _ \<Rightarrow> of_opt (lax_str_list rt j))"

text \<open>
  \<^verbatim>\<open>PromptTemplate(**template_data)\<close>: \<open>content\<close> is required, the other fields
  have the defaults of the class, keys that are no field are ignored.
\<close>

definition PromptTemplate_init :: "runtime \<Rightarrow> (string \<times> json) list \<Rightarrow> py_error + PromptTemplate" where
  "PromptTemplate_init rt kw =
     (case map_of kw ''content'' of
        None \<Rightarrow> Inl ValidationError
      | Some jc \<Rightarrow>
     (case validate_str rt jc of Inl e \<Rightarrow> Inl e | Inr c \<Rightarrow>
     (case (case map_of kw ''description'' of None \<Rightarrow> Inr (Some '''') | Some j \<Rightarrow> validate_opt_str rt j)
        of Inl e \<Rightarrow> Inl e | Inr d \<Rightarrow>
     (case (case map_of kw ''variables'' of None \<Rightarrow> Inr [] | Some j \<Rightarrow> validate_str_list rt j)
        of Inl e \<Rightarrow> Inl e | Inr vs \<Rightarrow>
     (case (case map_of kw ''model'' of None \<Rightarrow> Inr (Some ''claude-3-5-sonnet-20241022'')
                                      | Some j \<Rightarrow> validate_opt_str rt j)
        of Inl e \<Rightarrow> Inl e | Inr m \<Rightarrow>
     (case (case map_of kw ''max_tokens'' of None \<Rightarrow> Inr (Some 1000) | Some j \<Rightarrow> validate_opt_int rt j)
        of Inl e \<Rightarrow> Inl e | Inr mt \<Rightarrow>
        Inr \<lparr>t_content = c, t_description = d, t_variables = vs, t_model = m, t_max_tokens = mt\<rparr>))))))"

subsection \<open>string.Template\<close>

text \<open>
  \<^verbatim>\<open>storage.py\<close> renders with \<^verbatim>\<open>string.Template\<close> of the standard library. Its
  pattern is \<^verbatim>\<open>\$(?:(?P<escaped>\$)|(?P<named>ID)|{(?P<braced>ID)}|(?P<invalid>))\<close>
  with \<^verbatim>\<open>ID = (?a:[_a-z][_a-z0-9]*)\<close>, matched ignoring case. A match object is
  a record of the whole match and the four named groups.
\<close>

record match =
  whole :: string
  escaped :: "string option"
  named :: "string option"
  braced :: "string option"
  invalid :: "string option"

definition idstart :: "char \<Rightarrow> bool" where
  "idstart c \<longleftrightarrow> c \<in> set ''_abcdefghijklmnopqrstuvwxyzABCDEFGHIJKLMNOPQRSTUVWXYZ''"

definition idchar :: "char \<Rightarrow> bool" where
  "idchar c \<longleftrightarrow> idstart c \<or> c \<in> set ''0123456789''"

definition no_groups :: "string \<Rightarrow> match" where
  "no_groups w = \<lparr>whole = w, escaped = None, named = None, braced = None, invalid = None\<rparr>"

text \<open>
  The pattern tried at the head of the text: the match and the text after it, \<open>None\<close>
  when the text does not start with the delimiter. The alternatives are tried in the
  pattern's order; the identifier is the longest one, as \<^verbatim>\<open>*\<close> is greedy.
\<close>

definition pattern_match :: "string \<Rightarrow> (match \<times> string) option" where
  "pattern_match s =
     (case s of
        [] \<Rightarrow> None
      | c # r \<Rightarrow>
          if c \<noteq> CHR ''$'' then None
          else if r \<noteq> [] \<and> hd r = CHR ''$''
            then Some ((no_groups ''$$'')\<lparr>escaped := Some ''$''\<rparr>, tl r)
          else if r \<noteq> [] \<and> idstart (hd r)
            then Some ((no_groups (CHR ''$'' # takeWhile idchar r))\<lparr>named := Some (takeWhile idchar r)\<rparr>,
                       dropWhile idchar r)
          else if r \<noteq> [] \<and> hd r = CHR ''{'' \<and> tl r \<noteq> [] \<and> idstart (hd (tl r))
                  \<and> dropWhile idchar (tl r) \<noteq> [] \<and> hd (dropWhile idchar (tl r)) = CHR ''}''
            then Some ((no_groups (''${'' @ takeWhile idchar (tl r) @ ''}''))
                         \<lparr>braced := Some (takeWhile idchar (tl r))\<rparr>,
                       tl (dropWhile idchar (tl r)))
          else Some ((no_groups ''$'')\<lparr>invalid := Some ''''\<rparr>, r))"

text \<open>
  The text cut at the non-overlapping matches, left to right, as \<^verbatim>\<open>finditer\<close> and
  \<^verbatim>\<open>sub\<close> find them: a character outside every match, or a match.
\<close>

datatype segment = Text char | Match match

function scan :: "string \<Rightarrow> segment list" where
  "scan [] = []"
| "scan (c # cs) =
     (case pattern_match (c # cs) of
        None \<Rightarrow> Text c # scan cs
      | Some (mo, rest) \<Rightarrow> Match mo # scan rest)"
  by pat_completeness auto
termination
proof (relation "measure length")
  show "wf (measure length)" by simp
next
  fix c :: char and cs :: string
  show "(cs, c # cs) \<in> measure length" by simp
next
  fix c :: char and cs :: string and x mo rest
  assume "pattern_match (c # cs) = Some x" and "(mo, rest) = x"
  then have m: "pattern_match (c # cs) = Some (mo, rest)" by simp
  have "length (dropWhile idchar cs) \<le> length cs" "length (dropWhile idchar (tl cs)) \<le> length (tl cs)"
    by (rule length_dropWhile_le)+
  with m have "length rest < length (c # cs)"
    by (auto simp: pattern_match_def split: if_splits)
  then show "(rest, c # cs) \<in> measure length" by simp
qed

text \<open>Python's \<open>a or b\<close> on two groups: \<open>a\<close> unless it is \<open>None\<close> or empty.\<close>

definition py_or :: "string option \<Rightarrow> string option \<Rightarrow> string option" where
  "py_or a b = (case a of None \<Rightarrow> b | Some x \<Rightarrow> if x = [] then b else a)"

text \<open>
  \<^verbatim>\<open>get_identifiers\<close>: the identifiers of the named and braced matches, each at its
  first appearance; it raises on a match with no group set.
\<close>

fun get_identifiers_loop :: "segment list \<Rightarrow> string list \<Rightarrow> py_error + string list" where
  "get_identifiers_loop [] ids = Inr ids"
| "get_identifiers_loop (Text c # segs) ids = get_identifiers_loop segs ids"
| "get_identifiers_loop (Match mo # segs) ids =
     (if py_or (named mo) (braced mo) \<noteq> None \<and> the (py_or (named mo) (braced mo)) \<notin> set ids
        then get_identifiers_loop segs (ids @ [the (py_or (named mo) (braced mo))])
      else if py_or (named mo) (braced mo) = None \<and> invalid mo = None \<and> escaped mo = None
        then Inl (ValueError ''Unrecognized named group in pattern'')
      else get_identifiers_loop segs ids)"

definition get_identifiers :: "string \<Rightarrow> py_error + string list" where
  "get_identifiers template = get_identifiers_loop (scan template) []"

text \<open>
  \<^verbatim>\<open>safe_substitute\<close>: \<open>convert\<close> is its helper, called on every match; \<open>mapping\<close>
  holds \<^verbatim>\<open>str(value)\<close> for every key.
\<close>

definition convert :: "(string \<rightharpoonup> string) \<Rightarrow> match \<Rightarrow> py_error + string" where
  "convert mapping mo =
     (case py_or (named mo) (braced mo) of
        Some nm \<Rightarrow> (case mapping nm of Some v \<Rightarrow> Inr v | None \<Rightarrow> Inr (whole mo))
      | None \<Rightarrow>
          if escaped mo \<noteq> None then Inr ''$''
          else if invalid mo \<noteq> None then Inr (whole mo)
          else Inl (ValueError ''Unrecognized named group in pattern''))"

fun sub :: "(string \<rightharpoonup> string) \<Rightarrow> segment list \<Rightarrow> py_error + string" where
  "sub mapping [] = Inr []"
| "sub mapping (Text c # segs) =
     (case sub mapping segs of Inl e \<Rightarrow> Inl e | Inr out \<Rightarrow> Inr (c # out))"
| "sub mapping (Match mo # segs) =
     (case convert mapping mo of
        Inl e \<Rightarrow> Inl e
      | Inr v \<Rightarrow> (case sub mapping segs of Inl e \<Rightarrow> Inl e | Inr out \<Rightarrow> Inr (v @ out)))"

definition safe_substitute :: "string \<Rightarrow> (string \<times> string) list \<Rightarrow> py_error + string" where
  "safe_substitute template kws = sub (map_of kws) (scan template)"

subsection \<open>The prompts directory\<close>

text \<open>
  A file of the directory is what reading it gives: \<open>Doc d\<close> is a text that
  \<^verbatim>\<open>json.load\<close> parses to \<open>d\<close> (what \<^verbatim>\<open>json.dump\<close> of \<open>d\<close> writes is one),
  \<open>Truncated d\<close> the part of the text of \<open>d\<close> that \<^verbatim>\<open>json.dump\<close> had written
  when it raised, \<open>Garbage t\<close> any other text that is no JSON document, \<open>Undecodable\<close>
  a file whose bytes are no UTF-8 text (\<open>read\<close> raises), \<open>Unreadable\<close> a file that
  \<open>open\<close> refuses. The directory maps a path, as \<open>pathlib\<close> normalises it and relative
  to \<open>prompts_dir\<close> unless absolute, to its file; \<open>writable\<close> says where
  \<^verbatim>\<open>open(path, 'w')\<close> succeeds; \<open>stat_error\<close> gives, for a path that is not in the
  directory, the message of the error its lookup fails with when that error is another
  one than absence (a name longer than the file system allows, a directory that may not
  be searched).
\<close>

datatype file_data = Doc json | Truncated json | Garbage string | Undecodable | Unreadable

record store =
  entries :: "(string \<times> file_data) list"
  writable :: "string \<Rightarrow> bool"
  stat_error :: "string \<Rightarrow> string option"

text \<open>
  \<^verbatim>\<open>Path.exists\<close>: true for a path of the directory, false for an absent one, and the
  \<open>OSError\<close> of the lookup when that is another error than absence, which \<open>exists\<close>
  raises again.
\<close>

definition exists :: "store \<Rightarrow> string \<Rightarrow> py_error + bool" where
  "exists s path =
     (case map_of (entries s) path of
        Some f \<Rightarrow> Inr True
      | None \<Rightarrow> (case stat_error s path of Some msg \<Rightarrow> Inl (OSError msg) | None \<Rightarrow> Inr False))"

definition write_file :: "store \<Rightarrow> string \<Rightarrow> file_data \<Rightarrow> store" where
  "write_file s path f = s\<lparr>entries := AList.update path f (entries s)\<rparr>"

text \<open>
  The copy both backups make: \<^verbatim>\<open>open(src, 'r')\<close>, then \<^verbatim>\<open>open(dst, 'w')\<close>, then
  \<^verbatim>\<open>dst.write(src.read())\<close>. The store is returned also when an exception ends the
  copy: a destination opened before \<open>read\<close> raises stays behind, empty. Both callers
  discard the exception, so the message of an \<open>OSError\<close> is left empty here.
\<close>

definition copy_file :: "store \<Rightarrow> string \<Rightarrow> string \<Rightarrow> py_error option \<times> store" where
  "copy_file s src dst =
     (case map_of (entries s) src of
        None \<Rightarrow> (Some (OSError []), s)
      | Some Unreadable \<Rightarrow> (Some (OSError []), s)
      | Some f \<Rightarrow>
          if \<not> writable s dst then (Some (OSError []), s)
          else if f = Undecodable then (Some UnicodeDecodeError, write_file s dst (Garbage []))
          else (None, write_file s dst f))"

subsection \<open>Paths\<close>

text \<open>
  \<^verbatim>\<open>prompts_dir / name\<close>: \<open>pathlib\<close> cuts \<open>name\<close> at the separators, drops the empty
  components and the components \<open>.\<close>, keeps \<open>..\<close>, and keeps the root of an absolute
  \<open>name\<close>, which then replaces \<open>prompts_dir\<close>. The result is the key of the file in the
  directory. A component \<open>..\<close> is resolved by the file system only; such a path is a
  key of its own here.
\<close>

fun components :: "string \<Rightarrow> string \<Rightarrow> string list" where
  "components [] cur = [cur]"
| "components (c # cs) cur =
     (if c = CHR ''/'' then cur # components cs [] else components cs (cur @ [c]))"

fun join :: "string list \<Rightarrow> string" where
  "join [] = []"
| "join [x] = x"
| "join (x # y # r) = x @ CHR ''/'' # join (y # r)"

definition path_root :: "string \<Rightarrow> string" where
  "path_root p =
     (if take 2 p = ''//'' \<and> take 3 p \<noteq> ''///'' then ''//''
      else if take 1 p = ''/'' then ''/'' else [])"

definition normalise :: "string \<Rightarrow> string" where
  "normalise p = path_root p @ join (filter (\<lambda>x. x \<noteq> [] \<and> x \<noteq> ''.'') (components p []))"

text \<open>The final component of a path, and what precedes it.\<close>

definition path_name :: "string \<Rightarrow> string" where
  "path_name p = rev (takeWhile (\<lambda>c. c \<noteq> CHR ''/'') (rev p))"

definition path_parent :: "string \<Rightarrow> string" where
  "path_parent p = take (length p - length (path_name p)) p"

text \<open>\<^verbatim>\<open>str.rfind\<close> of a character; \<open>None\<close> is Python's \<open>-1\<close>.\<close>

definition rfind :: "string \<Rightarrow> char \<Rightarrow> nat option" where
  "rfind name c =
     (if c \<in> set name then Some (length name - 1 - length (takeWhile (\<lambda>x. x \<noteq> c) (rev name)))
      else None)"

definition suffix :: "string \<Rightarrow> string" where
  "suffix p =
     (let name = path_name p in
      case rfind name CHR ''.'' of
        None \<Rightarrow> []
      | Some i \<Rightarrow> if 0 < i \<and> i < length name - 1 then drop i name else [])"

definition stem :: "string \<Rightarrow> string" where
  "stem p =
     (let name = path_name p in
      case rfind name CHR ''.'' of
        None \<Rightarrow> name
      | Some i \<Rightarrow> if 0 < i \<and> i < length name - 1 then take i name else name)"

text \<open>\<^verbatim>\<open>with_suffix\<close>, on a path whose name is not empty.\<close>

definition with_suffix :: "string \<Rightarrow> string \<Rightarrow> string" where
  "with_suffix p suf =
     (let name = path_name p; old = suffix p in
      if old = [] then path_parent p @ name @ suf
      else path_parent p @ take (length name - length old) name @ suf)"

text \<open>\<^verbatim>\<open>with_name\<close> refuses a name that is empty, \<open>.\<close>, or holds a separator.\<close>

definition with_name :: "string \<Rightarrow> string \<Rightarrow> py_error + string" where
  "with_name p name =
     (if name = [] \<or> name = ''.'' \<or> CHR ''/'' \<in> set name then Inl (ValueError ''Invalid name'')
      else Inr (path_parent p @ name))"

text \<open>
  \<^verbatim>\<open>prompts_dir.glob("*.json")\<close>: the files of the directory itself whose name ends
  in \<open>.json\<close>, dot files too, in the order the directory gives them.
\<close>

definition fnmatch_json :: "string \<Rightarrow> bool" where
  "fnmatch_json name \<longleftrightarrow> 5 \<le> length name \<and> drop (length name - 5) name = ''.json''"

definition glob_json :: "store \<Rightarrow> string list" where
  "glob_json s = filter (\<lambda>p. CHR ''/'' \<notin> set p \<and> fnmatch_json p) (map fst (entries s))"

subsection \<open>PromptStorage\<close>

text \<open>\<^verbatim>\<open>self.prompts_dir / f"{category}.json"\<close>, as all the methods form it.\<close>

definition get_category_file_path :: "string \<Rightarrow> string" where
  "get_category_file_path category = normalise (category @ ''.json'')"

definition list_categories :: "store \<Rightarrow> string list" where
  "list_categories s = sort (map stem (glob_json s))"

text \<open>\<^verbatim>\<open>data.get(key, default)\<close> and \<^verbatim>\<open>.items()\<close>, which only a dict has.\<close>

definition json_get :: "json \<Rightarrow> string \<Rightarrow> json \<Rightarrow> py_error + json" where
  "json_get data key dflt =
     (case data of
        JObj kv \<Rightarrow> Inr (case map_of kv key of None \<Rightarrow> dflt | Some v \<Rightarrow> v)
      | _ \<Rightarrow> Inl AttributeError)"

definition json_items :: "json \<Rightarrow> py_error + (string \<times> json) list" where
  "json_items data = (case data of JObj kv \<Rightarrow> Inr kv | _ \<Rightarrow> Inl AttributeError)"

text \<open>The loop of \<open>get_category\<close> that fills \<open>templates\<close>.\<close>

fun load_templates ::
  "runtime \<Rightarrow> (string \<times> json) list \<Rightarrow> (string \<times> PromptTemplate) list
     \<Rightarrow> py_error + (string \<times> PromptTemplate) list" where
  "load_templates rt [] templates = Inr templates"
| "load_templates rt ((name, template_data) # rest) templates =
     (case template_data of
        JObj kw \<Rightarrow>
          (case PromptTemplate_init rt kw of
             Inl e \<Rightarrow> Inl e
           | Inr t \<Rightarrow> load_templates rt rest (AList.update name t templates))
      | _ \<Rightarrow> Inl TypeError)"

definition PromptCategory_init ::
  "runtime \<Rightarrow> json \<Rightarrow> json \<Rightarrow> json \<Rightarrow> (string \<times> PromptTemplate) list \<Rightarrow> py_error + PromptCategory" where
  "PromptCategory_init rt jv jc jd ts =
     (case validate_str rt jv of Inl e \<Rightarrow> Inl e | Inr v \<Rightarrow>
     (case validate_str rt jc of Inl e \<Rightarrow> Inl e | Inr c \<Rightarrow>
     (case validate_str rt jd of Inl e \<Rightarrow> Inl e | Inr d \<Rightarrow>
        Inr \<lparr>c_version = v, c_category = c, c_description = d, c_templates = ts\<rparr>)))"

text \<open>The body of the \<open>try\<close> of \<open>get_category\<close>, on the file found at the path.\<close>

definition read_category :: "runtime \<Rightarrow> string \<Rightarrow> file_data \<Rightarrow> py_error + PromptCategory" where
  "read_category rt category f =
     (case f of
        Unreadable \<Rightarrow> Inl (OSError [])
      | Undecodable \<Rightarrow> Inl UnicodeDecodeError
      | Garbage t \<Rightarrow> Inl JSONDecodeError
      | Truncated d \<Rightarrow> Inl JSONDecodeError
      | Doc data \<Rightarrow>
     (case json_get data ''templates'' (JObj []) of Inl e \<Rightarrow> Inl e | Inr jt \<Rightarrow>
     (case json_items jt of Inl e \<Rightarrow> Inl e | Inr items \<Rightarrow>
     (case load_templates rt items [] of Inl e \<Rightarrow> Inl e | Inr ts \<Rightarrow>
     (case json_get data ''version'' (JStr ''1.0.0'') of Inl e \<Rightarrow> Inl e | Inr jv \<Rightarrow>
     (case json_get data ''category'' (JStr category) of Inl e \<Rightarrow> Inl e | Inr jc \<Rightarrow>
     (case json_get data ''description'' (JStr []) of Inl e \<Rightarrow> Inl e | Inr jd \<Rightarrow>
        PromptCategory_init rt jv jc jd ts)))))))"

text \<open>
  \<open>get_category\<close> calls \<open>exists\<close> before its \<open>try\<close>: an exception of \<open>exists\<close>
  leaves the method, every exception of the \<open>try\<close> (that of \<open>open\<close> on a file that is
  not there among them) becomes \<open>None\<close>.
\<close>

definition get_category :: "runtime \<Rightarrow> store \<Rightarrow> string \<Rightarrow> py_error + PromptCategory option" where
  "get_category rt s category =
     (let file_path = get_category_file_path category in
      case exists s file_path of
        Inl e \<Rightarrow> Inl e
      | Inr found \<Rightarrow>
          if \<not> found then Inr None
          else (case map_of (entries s) file_path of
                  None \<Rightarrow> Inr None
                | Some f \<Rightarrow>
                    (case read_category rt category f of Inl e \<Rightarrow> Inr None | Inr pc \<Rightarrow> Inr (Some pc))))"

text \<open>The dict \<open>save_category\<close> builds for a template, and for the category.\<close>

definition opt_json :: "('a \<Rightarrow> json) \<Rightarrow> 'a option \<Rightarrow> json" where
  "opt_json f x = (case x of None \<Rightarrow> JNull | Some v \<Rightarrow> f v)"

definition template_data :: "PromptTemplate \<Rightarrow> json" where
  "template_data t =
     JObj [(''content'', JStr (t_content t)),
           (''description'', opt_json JStr (t_description t)),
           (''variables'', JList (map JStr (t_variables t))),
           (''model'', opt_json JStr (t_model t)),
           (''max_tokens'', opt_json JInt (t_max_tokens t))]"

fun dump_templates :: "(string \<times> PromptTemplate) list \<Rightarrow> (string \<times> json) list \<Rightarrow> (string \<times> json) list" where
  "dump_templates [] d = d"
| "dump_templates ((name, t) # rest) d = dump_templates rest (AList.update name (template_data t) d)"

definition category_data :: "PromptCategory \<Rightarrow> json" where
  "category_data pc =
     JObj [(''version'', JStr (c_version pc)),
           (''category'', JStr (c_category pc)),
           (''description'', JStr (c_description pc)),
           (''templates'', JObj (dump_templates (c_templates pc) []))]"

text \<open>
  \<open>save_category\<close> returns its success flag and the store it leaves; the whole body is
  in its \<open>try\<close>. The backup is copied first; an exception of \<open>exists\<close> or of the copy
  ends the call before the file is opened. \<^verbatim>\<open>open(file_path, 'w')\<close> empties the file,
  and when \<^verbatim>\<open>json.dump\<close> raises, the part it has written stays behind.
\<close>

definition save_category :: "store \<Rightarrow> string \<Rightarrow> PromptCategory \<Rightarrow> bool \<times> store" where
  "save_category s category prompt_category =
     (let file_path = get_category_file_path category in
      case exists s file_path of
        Inl e \<Rightarrow> (False, s)
      | Inr found \<Rightarrow>
          (let (e, s1) = (if found
                          then copy_file s file_path (with_suffix file_path ''.json.backup'')
                          else (None, s));
               data = category_data prompt_category
           in if e \<noteq> None then (False, s1)
              else if \<not> writable s1 file_path then (False, s1)
              else if \<not> dumpable data then (False, write_file s1 file_path (Truncated data))
              else (True, write_file s1 file_path (Doc data))))"

text \<open>
  \<open>backup_category\<close>; \<open>timestamp\<close> is the clock's reading as \<open>strftime\<close> formats it.
  \<open>exists\<close> and \<open>with_name\<close> are called outside the \<open>try\<close>, so their exceptions leave
  the method.
\<close>

definition backup_category :: "store \<Rightarrow> string \<Rightarrow> string \<Rightarrow> py_error + bool \<times> store" where
  "backup_category s category timestamp =
     (let file_path = get_category_file_path category in
      case exists s file_path of
        Inl e \<Rightarrow> Inl e
      | Inr found \<Rightarrow>
          if \<not> found then Inr (False, s)
          else (case with_name file_path (category @ ''_'' @ timestamp @ ''.backup.json'') of
                  Inl e \<Rightarrow> Inl e
                | Inr backup_path \<Rightarrow>
                    (case copy_file s file_path backup_path of
                       (None, s1) \<Rightarrow> Inr (True, s1)
                     | (Some e, s1) \<Rightarrow> Inr (False, s1))))"

text \<open>
  \<open>get_all_prompts\<close>: the entry of a category, the loop, the returned dict. It has no
  \<open>try\<close>: an exception of \<open>get_category\<close> leaves it.
\<close>

record summary =
  s_version :: string
  s_description :: string
  template_count :: nat
  template_names :: "string list"

record all_prompts =
  categories :: "(string \<times> summary) list"
  total_categories :: nat
  total_templates :: nat

fun get_all_prompts_loop ::
  "runtime \<Rightarrow> store \<Rightarrow> string list \<Rightarrow> (string \<times> summary) list \<times> nat
     \<Rightarrow> py_error + (string \<times> summary) list \<times> nat" where
  "get_all_prompts_loop rt s [] r = Inr r"
| "get_all_prompts_loop rt s (category_name # rest) (acc, n) =
     (case get_category rt s category_name of
        Inl e \<Rightarrow> Inl e
      | Inr None \<Rightarrow> get_all_prompts_loop rt s rest (acc, n)
      | Inr (Some c) \<Rightarrow>
          get_all_prompts_loop rt s rest
            (AList.update category_name
               \<lparr>s_version = c_version c, s_description = c_description c,
                template_count = length (c_templates c),
                template_names = map fst (c_templates c)\<rparr> acc,
             n + length (c_templates c)))"

definition get_all_prompts :: "runtime \<Rightarrow> store \<Rightarrow> py_error + all_prompts" where
  "get_all_prompts rt s =
     (case get_all_prompts_loop rt s (list_categories s) ([], 0) of
        Inl e \<Rightarrow> Inl e
      | Inr (acc, n) \<Rightarrow>
          Inr \<lparr>categories = acc, total_categories = length acc, total_templates = n\<rparr>)"

text \<open>
  \<open>test_prompt_rendering\<close>: the dict it returns is \<open>Failure error\<close> when
  \<open>success\<close> is false, and \<open>Success\<close> of the other four entries when it is true.
  \<open>variables\<close> holds \<^verbatim>\<open>str(value)\<close> for every key. The whole body is in its \<open>try\<close>,
  the call of \<open>get_category\<close> too.
\<close>

record rendering =
  rendered_prompt :: string
  missing_variables :: "string list"
  template_variables :: "string list"
  provided_variables :: "string list"

datatype test_result = Failure string | Success rendering

definition quoted :: "string \<Rightarrow> string" where
  "quoted x = [CHR 0x27] @ x @ [CHR 0x27]"

text \<open>
  \<open>render\<close> is the part of \<open>test_prompt_rendering\<close> from the \<open>Template\<close> on (lines 189
  to 206 of \<^verbatim>\<open>storage.py\<close>), once the template is found; an exception of it is caught by
  the \<open>try\<close> around the whole method. The two sets are kept as the lists they are built
  from, which is what their listing depends on.
\<close>

definition render :: "runtime \<Rightarrow> string \<Rightarrow> (string \<times> string) list \<Rightarrow> py_error + rendering" where
  "render rt template_content variables =
     (case get_identifiers template_content of
        Inl e \<Rightarrow> Inl e
      | Inr ids \<Rightarrow>
          (let template_vars = ids;
               provided_vars = map fst variables;
               missing_vars = list_of_diff rt template_vars provided_vars
           in case safe_substitute template_content variables of
                Inl e \<Rightarrow> Inl e
              | Inr rendered \<Rightarrow>
                  Inr \<lparr>rendered_prompt = rendered,
                       missing_variables = missing_vars,
                       template_variables = list_of_set rt template_vars,
                       provided_variables = list_of_set rt provided_vars\<rparr>))"

definition test_prompt_rendering ::
  "runtime \<Rightarrow> store \<Rightarrow> string \<Rightarrow> string \<Rightarrow> (string \<times> string) list \<Rightarrow> test_result" where
  "test_prompt_rendering rt s category template_name variables =
     (case get_category rt s category of
        Inl e \<Rightarrow> Failure (''Rendering failed: '' @ str_of_error e)
      | Inr None \<Rightarrow> Failure (''Category '' @ quoted category @ '' not found'')
      | Inr (Some prompt_category) \<Rightarrow>
          (case map_of (c_templates prompt_category) template_name of
             None \<Rightarrow> Failure (''Template '' @ quoted template_name @ '' not found in category ''
                                @ quoted category)
           | Some template_obj \<Rightarrow>
               (case render rt (t_content template_obj) variables of
                  Inl e \<Rightarrow> Failure (''Rendering failed: '' @ str_of_error e)
                | Inr r \<Rightarrow> Success r)))"

text \<open>One assignment \<open>d[name] = value\<close> to a dict.\<close>

definition put :: "string \<times> 'a \<Rightarrow> (string \<times> 'a) list \<Rightarrow> (string \<times> 'a) list" where
  "put kv al = AList.update (fst kv) (snd kv) al"

subsection \<open>The segments of a template\<close>

text \<open>
  An identifier is a full match of \<^verbatim>\<open>[_a-z][_a-z0-9]*\<close>. Of a segment: the text it
  was cut from, the identifier it names when it is a placeholder, and what
  \<open>safe_substitute\<close> puts in its place. The four matches the pattern can produce.
\<close>

definition is_identifier :: "string \<Rightarrow> bool" where
  "is_identifier i \<longleftrightarrow> i \<noteq> [] \<and> idstart (hd i) \<and> list_all idchar i"

fun seg_source :: "segment \<Rightarrow> string" where
  "seg_source (Text c) = [c]"
| "seg_source (Match mo) = whole mo"

fun seg_name :: "segment \<Rightarrow> string option" where
  "seg_name (Text c) = None"
| "seg_name (Match mo) = py_or (named mo) (braced mo)"

definition groups_ok :: "segment \<Rightarrow> bool" where
  "groups_ok seg =
     (case seg of Text c \<Rightarrow> True
      | Match mo \<Rightarrow> py_or (named mo) (braced mo) \<noteq> None \<or> escaped mo \<noteq> None \<or> invalid mo \<noteq> None)"

definition escaped_match :: match where
  "escaped_match = (no_groups ''$$'')\<lparr>escaped := Some ''$''\<rparr>"

definition invalid_match :: match where
  "invalid_match = (no_groups ''$'')\<lparr>invalid := Some []\<rparr>"

definition named_match :: "string \<Rightarrow> match" where
  "named_match i = (no_groups (CHR ''$'' # i))\<lparr>named := Some i\<rparr>"

definition braced_match :: "string \<Rightarrow> match" where
  "braced_match i = (no_groups (''${'' @ i @ ''}''))\<lparr>braced := Some i\<rparr>"

fun seg_out :: "(string \<rightharpoonup> string) \<Rightarrow> segment \<Rightarrow> string" where
  "seg_out m (Text c) = [c]"
| "seg_out m (Match mo) =
     (case py_or (named mo) (braced mo) of
        Some nm \<Rightarrow> (case m nm of Some v \<Rightarrow> v | None \<Rightarrow> whole mo)
      | None \<Rightarrow> if escaped mo \<noteq> None then ''$'' else whole mo)"

definition seg_names :: "segment list \<Rightarrow> string set" where
  "seg_names segs = {i. \<exists>seg\<in>set segs. seg_name seg = Some i}"

subsection \<open>Conditions used in the statements\<close>

text \<open>
  Normal I/O for a save under the name \<open>n\<close>: the lookup of the file answers, the file
  can be opened for writing, and a file that is already there can be read and its backup
  written.
\<close>

definition normal_io :: "store \<Rightarrow> string \<Rightarrow> bool" where
  "normal_io s n \<longleftrightarrow>
     writable s (get_category_file_path n) \<and>
     (case map_of (entries s) (get_category_file_path n) of
        None \<Rightarrow> stat_error s (get_category_file_path n) = None
      | Some f \<Rightarrow> f \<noteq> Unreadable \<and> f \<noteq> Undecodable
                 \<and> writable s (with_suffix (get_category_file_path n) ''.json.backup''))"

text \<open>
  A well-formed category document: an object whose fields, where present, have the types
  \<^verbatim>\<open>models.py\<close> declares; a template needs its \<open>content\<close>. \<open>template_defaults\<close>
  says that a template has the default of the class for every field absent from \<open>kw\<close>.
\<close>

definition is_str :: "json \<Rightarrow> bool" where
  "is_str j = (case j of JStr s \<Rightarrow> True | _ \<Rightarrow> False)"

definition is_opt_str :: "json \<Rightarrow> bool" where
  "is_opt_str j = (case j of JNull \<Rightarrow> True | JStr s \<Rightarrow> True | _ \<Rightarrow> False)"

definition is_opt_int :: "json \<Rightarrow> bool" where
  "is_opt_int j = (case j of JNull \<Rightarrow> True | JInt i \<Rightarrow> True | _ \<Rightarrow> False)"

definition is_str_list :: "json \<Rightarrow> bool" where
  "is_str_list j = (case j of JList js \<Rightarrow> list_all is_str js | _ \<Rightarrow> False)"

definition absent_or :: "(json \<Rightarrow> bool) \<Rightarrow> json option \<Rightarrow> bool" where
  "absent_or P x = (case x of None \<Rightarrow> True | Some j \<Rightarrow> P j)"

definition wf_template :: "json \<Rightarrow> bool" where
  "wf_template td =
     (case td of
        JObj kw \<Rightarrow>
          (case map_of kw ''content'' of None \<Rightarrow> False | Some j \<Rightarrow> is_str j)
          \<and> absent_or is_opt_str (map_of kw ''description'')
          \<and> absent_or is_str_list (map_of kw ''variables'')
          \<and> absent_or is_opt_str (map_of kw ''model'')
          \<and> absent_or is_opt_int (map_of kw ''max_tokens'')
      | _ \<Rightarrow> False)"

definition wf_templates :: "json \<Rightarrow> bool" where
  "wf_templates j =
     (case j of JObj ts \<Rightarrow> distinct (map fst ts) \<and> list_all (\<lambda>(name, td). wf_template td) ts
      | _ \<Rightarrow> False)"

definition wf_category :: "json \<Rightarrow> bool" where
  "wf_category data =
     (case data of
        JObj kv \<Rightarrow>
          absent_or is_str (map_of kv ''version'')
          \<and> absent_or is_str (map_of kv ''category'')
          \<and> absent_or is_str (map_of kv ''description'')
          \<and> absent_or wf_templates (map_of kv ''templates'')
      | _ \<Rightarrow> False)"

definition template_defaults :: "(string \<times> json) list \<Rightarrow> PromptTemplate \<Rightarrow> bool" where
  "template_defaults kw t \<longleftrightarrow>
     (map_of kw ''description'' = None \<longrightarrow> t_description t = Some [])
     \<and> (map_of kw ''variables'' = None \<longrightarrow> t_variables t = [])
     \<and> (map_of kw ''model'' = None \<longrightarrow> t_model t = Some ''claude-3-5-sonnet-20241022'')
     \<and> (map_of kw ''max_tokens'' = None \<longrightarrow> t_max_tokens t = Some 1000)"

text \<open>
  The entry \<open>get_all_prompts\<close> makes for a category, and the categories that load among
  a list of names.
\<close>

definition summary_of :: "PromptCategory \<Rightarrow> summary" where
  "summary_of c =
     \<lparr>s_version = c_version c, s_description = c_description c,
      template_count = length (c_templates c), template_names = map fst (c_templates c)\<rparr>"

definition loaded :: "runtime \<Rightarrow> store \<Rightarrow> string list \<Rightarrow> (string \<times> PromptCategory) list" where
  "loaded rt s names =
     List.map_filter
       (\<lambda>n. case get_category rt s n of Inr (Some c) \<Rightarrow> Some (n, c) | _ \<Rightarrow> None) names"

subsection \<open>Example values\<close>

text \<open>
  A runtime that rejects every value of another type and iterates over a set in sorted
  order, a writable empty directory, and a category with two templates.
\<close>

definition strict_sorted :: runtime where
  "strict_sorted =
     \<lparr>lax_str = (\<lambda>j. None), lax_int = (\<lambda>j. None), lax_str_list = (\<lambda>j. None),
      list_of_set = (\<lambda>xs. sort (remdups xs)),
      list_of_diff = (\<lambda>xs ys. sort (remdups (filter (\<lambda>x. x \<notin> set ys) xs)))\<rparr>"

definition empty_store :: store where
  "empty_store = \<lparr>entries = [], writable = (\<lambda>p. True), stat_error = (\<lambda>p. None)\<rparr>"

definition hello_template :: PromptTemplate where
  "hello_template =
     \<lparr>t_content = ''Hello $name, you are ${age}'', t_description = Some ''says hello'',
      t_variables = [''name'', ''age''], t_model = None, t_max_tokens = Some 200\<rparr>"

definition price_template :: PromptTemplate where
  "price_template =
     \<lparr>t_content = ''Cost: $$5 for $item'', t_description = None,
      t_variables = [''item''], t_model = Some ''claude-3-5-sonnet-20241022'', t_max_tokens = None\<rparr>"

definition greeting :: PromptCategory where
  "greeting =
     \<lparr>c_version = ''1.0.0'', c_category = ''greeting'', c_description = ''Greetings'',
      c_templates = [(''hello'', hello_template), (''price'', price_template)]\<rparr>"

definition greeting_store :: store where
  "greeting_store = write_file empty_store ''greeting.json'' (Doc (category_data greeting))"

definition greeting_v2 :: PromptCategory where
  "greeting_v2 = greeting\<lparr>c_version := ''1.1.0''\<rparr>"

definition broken_store :: store where
  "broken_store =
     \<lparr>entries =
        [(''broken.json'', Garbage ''{''),
         (''bare.json'', Doc (JObj [(''templates'', JObj [(''t'', JObj [(''content'', JStr ''Hi'')])])]))],
      writable = (\<lambda>p. True), stat_error = (\<lambda>p. None)\<rparr>"

definition order_store :: store where
  "order_store =
     \<lparr>entries =
        [(''order.json'', Doc (JObj [(''templates'', JObj [(''t'', JObj [(''content'', JStr ''$b $a'')])])]))],
      writable = (\<lambda>p. True), stat_error = (\<lambda>p. None)\<rparr>"

text \<open>
  The directory after \<open>save_category\<close> of \<open>greeting\<close> under the empty name and under
  the name \<open>.json\<close>.
\<close>

definition dot_store :: store where
  "dot_store =
     write_file (write_file empty_store ''.json'' (Doc (category_data greeting)))
       ''.json.json'' (Doc (category_data greeting))"

text \<open>
  A category whose declared name is the lone surrogate \<open>U+D800\<close>; a name of 300
  characters and a directory on a file system whose names hold at most 255 bytes, where
  the lookup of a longer name fails; the directory of \<open>greeting\<close> with the backup path,
  or all but the backup path, refused for writing.
\<close>

definition surrogate_category :: PromptCategory where
  "surrogate_category = greeting\<lparr>c_category := [CHR 0xED, CHR 0xA0, CHR 0x80]\<rparr>"

definition long_name :: string where
  "long_name = replicate 300 (CHR ''a'')"

definition long_name_store :: store where
  "long_name_store =
     empty_store\<lparr>stat_error :=
       (\<lambda>p. if 255 < length (path_name p)
            then Some (''[Errno 36] File name too long: '' @ quoted (''prompts/'' @ p))
            else None)\<rparr>"

definition unwritable_backup_store :: store where
  "unwritable_backup_store = greeting_store\<lparr>writable := (\<lambda>p. p \<noteq> ''greeting.json.backup'')\<rparr>"

definition unwritable_file_store :: store where
  "unwritable_file_store = greeting_store\<lparr>writable := (\<lambda>p. p = ''greeting.json.backup'')\<rparr>"

section \<open>Properties\<close>

subsection \<open>Paths\<close>

lemma components_plain: "CHR ''/'' \<notin> set p \<Longrightarrow> components p cur = [cur @ p]"
  by (induction p arbitrary: cur) auto

lemma components_not_Nil [simp]: "components p cur \<noteq> []"
  by (induction p cur rule: components.induct) auto

lemma components_append:
  "CHR ''/'' \<notin> set t \<Longrightarrow>
     components (p @ t) cur = butlast (components p cur) @ [last (components p cur) @ t]"
  by (induction p cur rule: components.induct) (auto simp: components_plain)

lemma join_snoc: "\<exists>pre. join (xs @ [z]) = pre @ z"
proof (induction xs rule: join.induct)
  case 1
  then show ?case by simp
next
  case (2 x)
  have "join ([x] @ [z]) = (x @ ''/'') @ z" by simp
  then show ?case by blast
next
  case (3 x y r)
  then obtain pre where "join ((y # r) @ [z]) = pre @ z" by blast
  then have "join ((x # y # r) @ [z]) = (x @ CHR ''/'' # pre) @ z" by simp
  then show ?case by blast
qed

lemma file_path_ends: "\<exists>pre. get_category_file_path n = pre @ ''.json''"
proof -
  let ?keep = "\<lambda>x. x \<noteq> [] \<and> x \<noteq> ''.''"
  let ?l = "last (components n []) @ ''.json''"
  have c: "components (n @ ''.json'') [] = butlast (components n []) @ [?l]"
    by (rule components_append) simp
  have k: "?keep ?l" by (simp add: append_eq_Cons_conv)
  have "filter ?keep (components (n @ ''.json'') []) = filter ?keep (butlast (components n [])) @ [?l]"
    using k by (simp add: c)
  moreover obtain pre where "join (filter ?keep (butlast (components n [])) @ [?l]) = pre @ ?l"
    using join_snoc by blast
  ultimately have "get_category_file_path n = (path_root (n @ ''.json'') @ pre @ last (components n [])) @ ''.json''"
    by (simp add: get_category_file_path_def normalise_def)
  then show ?thesis by blast
qed

lemma file_path_plain:
  assumes "CHR ''/'' \<notin> set n"
  shows "get_category_file_path n = n @ ''.json''"
proof -
  have c: "components (n @ ''.json'') [] = [n @ ''.json'']"
    using assms by (simp add: components_plain)
  have k: "n @ ''.json'' \<noteq> ''.''" by (simp add: append_eq_Cons_conv)
  have r: "path_root (n @ ''.json'') = []"
    using assms by (cases n) (auto simp: path_root_def)
  show ?thesis using k by (simp add: get_category_file_path_def normalise_def c r)
qed

lemma with_suffix_last: "last (with_suffix p ''.json.backup'') = CHR ''p''"
  by (simp add: with_suffix_def Let_def)

lemma with_suffix_backup_neq:
  "with_suffix (get_category_file_path n) ''.json.backup'' \<noteq> get_category_file_path n"
proof
  assume e: "with_suffix (get_category_file_path n) ''.json.backup'' = get_category_file_path n"
  obtain pre where "get_category_file_path n = pre @ ''.json''" using file_path_ends by blast
  then have "last (get_category_file_path n) = CHR ''n''" by simp
  with e with_suffix_last [of "get_category_file_path n"] show False by simp
qed

lemma int_repr_small: "\<bar>i\<bar> < 10000 \<Longrightarrow> int_repr_ok i"
proof -
  assume a: "\<bar>i\<bar> < 10000"
  have h: "(10::int) ^ 4 \<le> 10 ^ 4300" by (rule power_increasing) simp_all
  have e: "(10::int) ^ 4 = 10000" by simp
  from a have "\<bar>i\<bar> < 10 ^ 4" by (simp only: e)
  then have "\<bar>i\<bar> < 10 ^ 4300" using h by (rule less_le_trans)
  then show ?thesis by (simp only: int_repr_ok_def)
qed

lemma encodable_ascii: "\<forall>c\<in>set t. c < CHR 0x80 \<Longrightarrow> encodable t"
proof -
  have "\<forall>c\<in>set t. c < CHR 0x80 \<Longrightarrow> \<not> has_surrogate t"
    by (induction t rule: has_surrogate.induct) auto
  then show "\<forall>c\<in>set t. c < CHR 0x80 \<Longrightarrow> encodable t" by (simp add: encodable_def)
qed

lemma dumpable_greeting: "dumpable (category_data greeting)"
  by (simp add: category_data_def greeting_def hello_template_def price_template_def template_data_def
      opt_json_def encodable_def int_repr_small)

lemma file_path_examples:
  "get_category_file_path ''greeting'' = ''greeting.json''"
  "get_category_file_path ''hello'' = ''hello.json''"
  "get_category_file_path ''x'' = ''x.json''"
  "get_category_file_path ''missing'' = ''missing.json''"
  "get_category_file_path ''broken'' = ''broken.json''"
  "get_category_file_path ''bare'' = ''bare.json''"
  "get_category_file_path ''order'' = ''order.json''"
  "get_category_file_path [] = ''.json''"
  "get_category_file_path ''.json'' = ''.json.json''"
  by (simp_all add: file_path_plain)

lemma with_suffix_greeting: "with_suffix ''greeting.json'' ''.json.backup'' = ''greeting.json.backup''"
  by (simp add: with_suffix_def suffix_def path_name_def path_parent_def rfind_def)

lemma empty_store_simps [simp]:
  "entries empty_store = []" "writable empty_store = (\<lambda>p. True)" "stat_error empty_store = (\<lambda>p. None)"
  by (simp_all add: empty_store_def)

subsection \<open>What save_category writes, get_category reads\<close>

lemma the_strs_JStr: "the_strs (map JStr xs) = Some xs"
  by (induction xs) auto

lemma validate_str_list_dump: "validate_str_list rt (JList (map JStr xs)) = Inr xs"
  by (simp add: validate_str_list_def the_strs_JStr)

lemma validate_opt_str_dump: "validate_opt_str rt (opt_json JStr x) = Inr x"
  by (cases x) (simp_all add: validate_opt_str_def opt_json_def)

lemma validate_opt_int_dump: "validate_opt_int rt (opt_json JInt x) = Inr x"
  by (cases x) (simp_all add: validate_opt_int_def opt_json_def)

lemma PromptTemplate_init_dump:
  "template_data t = JObj kw \<Longrightarrow> PromptTemplate_init rt kw = Inr t"
  by (auto simp: template_data_def PromptTemplate_init_def validate_str_def
        validate_str_list_dump validate_opt_str_dump validate_opt_int_dump)

lemma update_map_snd:
  "AList.update k (f v) (map (\<lambda>(n, x). (n, f x)) al) = map (\<lambda>(n, x). (n, f x)) (AList.update k v al)"
  by (induction al) auto

lemma dump_templates_fold:
  "dump_templates ts (map (\<lambda>(n, t). (n, template_data t)) d)
     = map (\<lambda>(n, t). (n, template_data t)) (fold put ts d)"
  by (induction ts arbitrary: d) (auto simp: put_def update_map_snd)

lemma load_templates_dump:
  "load_templates rt (map (\<lambda>(n, t). (n, template_data t)) xs) acc = Inr (fold put xs acc)"
proof (induction xs arbitrary: acc)
  case Nil
  then show ?case by simp
next
  case (Cons x xs)
  obtain n t where x: "x = (n, t)" by (cases x)
  obtain kw where kw: "template_data t = JObj kw" by (simp add: template_data_def)
  show ?case using Cons.IH PromptTemplate_init_dump [OF kw]
    by (simp add: x kw put_def)
qed

lemma update_fresh: "k \<notin> fst ` set al \<Longrightarrow> AList.update k v al = al @ [(k, v)]"
  by (induction al) auto

lemma fold_put_distinct:
  "distinct (map fst (acc @ xs)) \<Longrightarrow> fold put xs acc = acc @ xs"
proof (induction xs arbitrary: acc)
  case Nil
  then show ?case by simp
next
  case (Cons x xs)
  from Cons.prems have "fst x \<notin> fst ` set acc" by auto
  then have "put x acc = acc @ [x]" by (simp add: put_def update_fresh)
  moreover from Cons.prems have "distinct (map fst ((acc @ [x]) @ xs))" by simp
  ultimately show ?case using Cons.IH [of "acc @ [x]"] by simp
qed

lemma read_category_dump:
  "read_category rt key (Doc (category_data pc))
     = Inr (pc\<lparr>c_templates := fold put (fold put (c_templates pc) []) []\<rparr>)"
proof -
  have d: "dump_templates (c_templates pc) []
             = map (\<lambda>(n, t). (n, template_data t)) (fold put (c_templates pc) [])"
    using dump_templates_fold [of "c_templates pc" "[]"] by simp
  show ?thesis
    by (simp add: read_category_def category_data_def json_get_def json_items_def d
        load_templates_dump PromptCategory_init_def validate_str_def)
qed

lemma read_category_roundtrip:
  assumes "distinct (map fst (c_templates pc))"
  shows "read_category rt key (Doc (category_data pc)) = Inr pc"
proof -
  have "fold put (c_templates pc) [] = c_templates pc"
    using fold_put_distinct [of "[]" "c_templates pc"] assms by simp
  then show ?thesis by (simp add: read_category_dump)
qed

lemma map_of_write_file_same: "map_of (entries (write_file s p f)) p = Some f"
  by (simp add: write_file_def update_conv')

lemma map_of_write_file_other:
  "q \<noteq> p \<Longrightarrow> map_of (entries (write_file s p f)) q = map_of (entries s) q"
  by (simp add: write_file_def update_conv')

lemma writable_write_file [simp]: "writable (write_file s p f) = writable s"
  by (simp add: write_file_def)

lemma stat_error_write_file [simp]: "stat_error (write_file s p f) = stat_error s"
  by (simp add: write_file_def)

lemma exists_present: "map_of (entries s) p = Some f \<Longrightarrow> exists s p = Inr True"
  by (simp add: exists_def)

lemma get_category_present:
  "map_of (entries s) (get_category_file_path n) = Some f \<Longrightarrow>
     get_category rt s n = (case read_category rt n f of Inl e \<Rightarrow> Inr None | Inr pc \<Rightarrow> Inr (Some pc))"
  by (simp add: get_category_def exists_present)

lemma save_category_True:
  assumes "save_category s n pc = (True, s')"
  shows "map_of (entries s') (get_category_file_path n) = Some (Doc (category_data pc))"
  using assms
  by (auto simp: save_category_def Let_def map_of_write_file_same
      split: prod.splits if_splits sum.splits)

text \<open>
  C1. Round trip: when \<open>save_category\<close> of a category \<open>C\<close> under the name \<open>n\<close> returns
  true, \<open>get_category\<close> of \<open>n\<close> on the store it leaves returns \<open>C\<close> itself: the same
  version, declared name and description, and the same templates with the same content,
  description, variables, model and max_tokens. \<open>C\<close> is a Python value: the keys of
  its \<open>templates\<close> dict are distinct.
\<close>

theorem save_then_load:
  assumes "save_category s n C = (True, s')" and "distinct (map fst (c_templates C))"
  shows "get_category rt s' n = Inr (Some C)"
  using get_category_present [OF save_category_True [OF assms(1)], of rt]
    read_category_roundtrip [OF assms(2), of rt n]
  by simp

theorem save_then_load_witness:
  "save_category empty_store ''greeting'' greeting
     = (True, write_file empty_store ''greeting.json'' (Doc (category_data greeting)))
   \<and> distinct (map fst (c_templates greeting))
   \<and> get_category strict_sorted
         (write_file empty_store ''greeting.json'' (Doc (category_data greeting))) ''greeting''
       = Inr (Some greeting)"
proof -
  have a: "save_category empty_store ''greeting'' greeting
             = (True, write_file empty_store ''greeting.json'' (Doc (category_data greeting)))"
    by (simp add: save_category_def exists_def file_path_examples dumpable_greeting)
  have b: "distinct (map fst (c_templates greeting))"
    by (simp add: greeting_def)
  from a b save_then_load [OF a b, of strict_sorted] show ?thesis by simp
qed

subsection \<open>Backups and divergent names\<close>

lemma save_category_over:
  assumes "map_of (entries s) (get_category_file_path n) = Some f" and "save_category s n C = (True, s')"
  shows "s' = write_file (write_file s (with_suffix (get_category_file_path n) ''.json.backup'') f)
                 (get_category_file_path n) (Doc (category_data C))"
  using assms
  by (auto simp: save_category_def exists_def copy_file_def Let_def
      split: prod.splits if_splits file_data.splits)

text \<open>
  What a save over a readable file does when one of its two writes is refused: with the
  backup path not writable nothing is written, and with only the file not writable the
  backup is written all the same.
\<close>

lemma save_category_backup_refused:
  assumes "map_of (entries s) (get_category_file_path n) = Some f"
    and "f \<noteq> Unreadable"
    and "\<not> writable s (with_suffix (get_category_file_path n) ''.json.backup'')"
  shows "save_category s n C = (False, s)"
  using assms
  by (auto simp: save_category_def exists_def copy_file_def Let_def split: file_data.splits)

lemma save_category_file_refused:
  assumes "map_of (entries s) (get_category_file_path n) = Some f"
    and "f \<noteq> Unreadable" and "f \<noteq> Undecodable"
    and "writable s (with_suffix (get_category_file_path n) ''.json.backup'')"
    and "\<not> writable s (get_category_file_path n)"
  shows "save_category s n C
           = (False, write_file s (with_suffix (get_category_file_path n) ''.json.backup'') f)"
  using assms
  by (auto simp: save_category_def exists_def copy_file_def Let_def split: file_data.splits)

text \<open>
  C5. Backup before overwrite: when \<open>save_category\<close> of \<open>C1\<close> under \<open>n\<close> returns true
  and then \<open>save_category\<close> of \<open>C2\<close> under \<open>n\<close> returns true, the overwrite-backup
  path holds the very file that was at \<open>n\<close> before the second save, reading that file
  gives \<open>C1\<close>, and the store left is the one with the backup and the new content
  written. The backup is written first: on the store the first save left, with
  any writability \<open>w\<close>, a second save that may not write the backup fails and
  leaves the store, the file of \<open>n\<close> included, as it was; and a second save that may write
  the backup but not the file fails with the backup written.
\<close>

theorem backup_before_overwrite:
  assumes "save_category s0 n C1 = (True, s1)" and "save_category s1 n C2 = (True, s2)"
    and "distinct (map fst (c_templates C1))"
  shows "map_of (entries s2) (with_suffix (get_category_file_path n) ''.json.backup'')
           = map_of (entries s1) (get_category_file_path n)
       \<and> (\<exists>f. map_of (entries s2) (with_suffix (get_category_file_path n) ''.json.backup'') = Some f
              \<and> read_category rt n f = Inr C1)
       \<and> s2 = write_file
                (write_file s1 (with_suffix (get_category_file_path n) ''.json.backup'')
                   (Doc (category_data C1)))
                (get_category_file_path n) (Doc (category_data C2))
       \<and> (\<forall>w. \<not> w (with_suffix (get_category_file_path n) ''.json.backup'')
              \<longrightarrow> save_category (s1\<lparr>writable := w\<rparr>) n C2 = (False, s1\<lparr>writable := w\<rparr>))
       \<and> (\<forall>w. w (with_suffix (get_category_file_path n) ''.json.backup'')
                \<and> \<not> w (get_category_file_path n)
              \<longrightarrow> save_category (s1\<lparr>writable := w\<rparr>) n C2
                    = (False, write_file (s1\<lparr>writable := w\<rparr>)
                                (with_suffix (get_category_file_path n) ''.json.backup'')
                                (Doc (category_data C1))))"
proof -
  let ?p = "get_category_file_path n"
  let ?b = "with_suffix ?p ''.json.backup''"
  have f1: "map_of (entries s1) ?p = Some (Doc (category_data C1))"
    using assms(1) by (rule save_category_True)
  have s2: "s2 = write_file (write_file s1 ?b (Doc (category_data C1))) ?p (Doc (category_data C2))"
    using save_category_over [OF f1 assms(2)] .
  have b: "map_of (entries s2) ?b = Some (Doc (category_data C1))"
    by (simp add: s2 map_of_write_file_other with_suffix_backup_neq map_of_write_file_same)
  have r: "save_category (s1\<lparr>writable := w\<rparr>) n C2 = (False, s1\<lparr>writable := w\<rparr>)"
    if "\<not> w ?b" for w
    by (rule save_category_backup_refused [where f = "Doc (category_data C1)"])
       (use f1 that in simp_all)
  have q: "save_category (s1\<lparr>writable := w\<rparr>) n C2
             = (False, write_file (s1\<lparr>writable := w\<rparr>) ?b (Doc (category_data C1)))"
    if "w ?b \<and> \<not> w ?p" for w
    by (rule save_category_file_refused) (use f1 that in simp_all)
  show ?thesis using f1 s2 b r q read_category_roundtrip [OF assms(3)] by simp
qed

theorem backup_before_overwrite_witness:
  "save_category empty_store ''greeting'' greeting = (True, greeting_store)
   \<and> save_category greeting_store ''greeting'' greeting_v2
     = (True, write_file
                (write_file greeting_store ''greeting.json.backup'' (Doc (category_data greeting)))
                ''greeting.json'' (Doc (category_data greeting_v2)))
   \<and> distinct (map fst (c_templates greeting))
   \<and> map_of (entries (write_file
                (write_file greeting_store ''greeting.json.backup'' (Doc (category_data greeting)))
                ''greeting.json'' (Doc (category_data greeting_v2)))) ''greeting.json.backup''
       = Some (Doc (category_data greeting))
   \<and> read_category strict_sorted ''greeting'' (Doc (category_data greeting)) = Inr greeting
   \<and> \<not> writable unwritable_backup_store ''greeting.json.backup''
   \<and> save_category unwritable_backup_store ''greeting'' greeting_v2 = (False, unwritable_backup_store)
   \<and> map_of (entries unwritable_backup_store) ''greeting.json'' = Some (Doc (category_data greeting))
   \<and> writable unwritable_file_store ''greeting.json.backup''
   \<and> \<not> writable unwritable_file_store ''greeting.json''
   \<and> save_category unwritable_file_store ''greeting'' greeting_v2
       = (False, write_file unwritable_file_store ''greeting.json.backup'' (Doc (category_data greeting)))"
proof -
  let ?s2 = "write_file (write_file greeting_store ''greeting.json.backup'' (Doc (category_data greeting)))
               ''greeting.json'' (Doc (category_data greeting_v2))"
  note p = file_path_examples(1) with_suffix_greeting
  have a: "save_category empty_store ''greeting'' greeting = (True, greeting_store)"
    by (simp add: save_category_def exists_def file_path_examples dumpable_greeting greeting_store_def)
  have e: "map_of (entries greeting_store) ''greeting.json'' = Some (Doc (category_data greeting))"
    by (simp add: greeting_store_def map_of_write_file_same)
  have w: "writable greeting_store = (\<lambda>p. True)" by (simp add: greeting_store_def)
  have d2: "dumpable (category_data greeting_v2)"
    using dumpable_greeting by (simp add: greeting_v2_def category_data_def encodable_def)
  have b: "save_category greeting_store ''greeting'' greeting_v2 = (True, ?s2)"
    by (simp add: save_category_def exists_def copy_file_def Let_def e p w d2)
  have c: "distinct (map fst (c_templates greeting))"
    by (simp add: greeting_def)
  have u1: "unwritable_backup_store = greeting_store\<lparr>writable := (\<lambda>p. p \<noteq> ''greeting.json.backup'')\<rparr>"
    by (simp add: unwritable_backup_store_def)
  have u2: "unwritable_file_store = greeting_store\<lparr>writable := (\<lambda>p. p = ''greeting.json.backup'')\<rparr>"
    by (simp add: unwritable_file_store_def)
  note t = backup_before_overwrite [OF a b c, of strict_sorted, unfolded p]
  from t have t1: "save_category unwritable_backup_store ''greeting'' greeting_v2
                     = (False, unwritable_backup_store)"
    by (simp add: u1)
  from t have t2: "save_category unwritable_file_store ''greeting'' greeting_v2
       = (False, write_file unwritable_file_store ''greeting.json.backup'' (Doc (category_data greeting)))"
    by (simp add: u2)
  from t have t3: "map_of (entries ?s2) ''greeting.json.backup'' = Some (Doc (category_data greeting))"
    "read_category strict_sorted ''greeting'' (Doc (category_data greeting)) = Inr greeting"
    by (auto simp: e)
  have m: "map_of (entries unwritable_backup_store) ''greeting.json'' = Some (Doc (category_data greeting))"
    by (simp add: u1 e)
  from a b c t1 t2 t3 m show ?thesis by (simp add: u1 u2)
qed

lemma save_category_normal:
  assumes "normal_io s n" and "dumpable (category_data C)"
  shows "\<exists>s'. save_category s n C = (True, s')"
  using assms
  by (auto simp: normal_io_def save_category_def exists_def copy_file_def Let_def
      split: prod.splits if_splits file_data.splits option.splits)

text \<open>
  C9, as the code has it. Name and key may differ: for a category \<open>C\<close> that
  \<^verbatim>\<open>json.dump\<close> can write (no surrogate in its strings, no integer past the digit
  limit) and whose declared name is not the key \<open>n\<close>, \<open>save_category\<close> under normal I/O
  returns true, the document stored under \<open>n\<close> carries the declared name of \<open>C\<close>, and
  \<open>get_category\<close> of \<open>n\<close> then returns a category whose declared name is that of \<open>C\<close>,
  not \<open>n\<close>.
\<close>

theorem name_key_divergence:
  assumes "c_category C \<noteq> n" and "normal_io s n" and "dumpable (category_data C)"
  shows "\<exists>s'. save_category s n C = (True, s')
            \<and> (\<exists>kv. map_of (entries s') (get_category_file_path n) = Some (Doc (JObj kv))
                   \<and> map_of kv ''category'' = Some (JStr (c_category C)))
            \<and> (\<exists>pc. get_category rt s' n = Inr (Some pc)
                   \<and> c_category pc = c_category C \<and> c_category pc \<noteq> n)"
proof -
  obtain s' where s': "save_category s n C = (True, s')"
    using save_category_normal [OF assms(2,3)] by blast
  have f: "map_of (entries s') (get_category_file_path n) = Some (Doc (category_data C))"
    using s' by (rule save_category_True)
  have kv: "\<exists>kv. category_data C = JObj kv \<and> map_of kv ''category'' = Some (JStr (c_category C))"
    by (simp add: category_data_def)
  have g: "\<exists>pc. get_category rt s' n = Inr (Some pc) \<and> c_category pc = c_category C"
    by (simp add: get_category_present [OF f] read_category_dump)
  show ?thesis using s' f kv g assms(1) by auto
qed

theorem name_key_divergence_witness:
  "c_category greeting \<noteq> ''hello'' \<and> normal_io empty_store ''hello''
   \<and> dumpable (category_data greeting)
   \<and> (\<exists>s'. save_category empty_store ''hello'' greeting = (True, s')
            \<and> (\<exists>kv. map_of (entries s') ''hello.json'' = Some (Doc (JObj kv))
                   \<and> map_of kv ''category'' = Some (JStr ''greeting''))
            \<and> (\<exists>pc. get_category strict_sorted s' ''hello'' = Inr (Some pc)
                   \<and> c_category pc = ''greeting'' \<and> c_category pc \<noteq> ''hello''))"
proof -
  have a: "c_category greeting \<noteq> ''hello''" by (simp add: greeting_def)
  have b: "normal_io empty_store ''hello''" by (simp add: normal_io_def file_path_examples)
  have c: "c_category greeting = ''greeting''" by (simp add: greeting_def)
  from name_key_divergence [OF a b dumpable_greeting, of strict_sorted] a b dumpable_greeting
  show ?thesis by (simp add: c file_path_examples)
qed

text \<open>
  C9, as stated, fails: under normal I/O the save of a category whose declared name is
  the lone surrogate \<open>U+D800\<close>, under the key \<open>x\<close>, returns false, \<^verbatim>\<open>json.dump\<close>
  having raised, and leaves a truncated file.
\<close>

theorem unserialisable_name_counterexample:
  "c_category surrogate_category \<noteq> ''x'' \<and> normal_io empty_store ''x''
   \<and> save_category empty_store ''x'' surrogate_category
       = (False, write_file empty_store ''x.json'' (Truncated (category_data surrogate_category)))"
proof -
  have n: "\<not> dumpable (category_data surrogate_category)"
    by (simp add: category_data_def surrogate_category_def encodable_def)
  have a: "c_category surrogate_category \<noteq> ''x''" by (simp add: surrogate_category_def)
  have b: "normal_io empty_store ''x''" by (simp add: normal_io_def file_path_examples)
  have c: "save_category empty_store ''x'' surrogate_category
       = (False, write_file empty_store ''x.json'' (Truncated (category_data surrogate_category)))"
    by (simp add: save_category_def exists_def file_path_examples n)
  from a b c show ?thesis by simp
qed

subsection \<open>Errors of get_category\<close>

text \<open>
  Where the lookup of the file answers, \<open>get_category\<close> returns \<open>None\<close> when there is no
  file for the name, and also when the file is there but cannot be opened or decoded, is
  no JSON document, or is a document that is no object: whenever the body of its \<open>try\<close>
  raises. When \<open>get_category\<close> returns \<open>None\<close>, \<open>test_prompt_rendering\<close> returns the
  failure record whose error says that the category was not found.
\<close>

lemma get_category_collapses:
  "(map_of (entries s) (get_category_file_path n) = None \<and> stat_error s (get_category_file_path n) = None
      \<longrightarrow> get_category rt s n = Inr None)
   \<and> (map_of (entries s) (get_category_file_path n) = Some f
        \<and> (f = Unreadable \<or> f = Undecodable \<or> (\<exists>t. f = Garbage t) \<or> (\<exists>d. f = Truncated d)
             \<or> (\<exists>d. f = Doc d \<and> (\<forall>kv. d \<noteq> JObj kv)))
      \<longrightarrow> get_category rt s n = Inr None)
   \<and> (map_of (entries s) (get_category_file_path n) = Some f \<and> read_category rt n f = Inl e
      \<longrightarrow> get_category rt s n = Inr None)
   \<and> (get_category rt s n = Inr None
      \<longrightarrow> test_prompt_rendering rt s n template_name variables
            = Failure (''Category '' @ quoted n @ '' not found''))"
proof -
  have "read_category rt n (Doc d) = Inl AttributeError" if "\<forall>kv. d \<noteq> JObj kv" for d
    using that by (cases d) (simp_all add: read_category_def json_get_def)
  then show ?thesis
    by (auto simp: get_category_def exists_def read_category_def test_prompt_rendering_def)
qed

text \<open>
  C6. The claim that \<open>get_category\<close> never raises, and that rendering against a category
  that is not there reports it as not found, fails on the code: \<open>exists\<close> is called
  before the \<open>try\<close>, so for a name of 300 characters, which no file has and which is
  longer than the file system allows, the \<open>OSError\<close> of the lookup leaves \<open>get_category\<close>,
  and \<open>test_prompt_rendering\<close> reports a failed rendering with the message of that
  error. \<open>save_category\<close>, which calls \<open>exists\<close> inside its \<open>try\<close>, returns false there.
\<close>

theorem long_name_raises:
  "map_of (entries long_name_store) (get_category_file_path long_name) = None
   \<and> get_category strict_sorted long_name_store long_name
       = Inl (OSError (''[Errno 36] File name too long: '' @ quoted (''prompts/'' @ long_name @ ''.json'')))
   \<and> test_prompt_rendering strict_sorted long_name_store long_name ''t'' []
       = Failure (''Rendering failed: [Errno 36] File name too long: ''
                   @ quoted (''prompts/'' @ long_name @ ''.json''))
   \<and> save_category long_name_store long_name greeting = (False, long_name_store)"
proof -
  have s: "CHR ''/'' \<notin> set long_name" by (simp add: long_name_def)
  have p: "get_category_file_path long_name = long_name @ ''.json''"
    using s by (rule file_path_plain)
  have "takeWhile (\<lambda>c. c \<noteq> CHR ''/'') (rev (long_name @ ''.json'')) = rev (long_name @ ''.json'')"
    by (rule takeWhile_eq_all_conv [THEN iffD2]) (use s in auto)
  then have n: "path_name (long_name @ ''.json'') = long_name @ ''.json''"
    by (simp only: path_name_def rev_rev_ident)
  have l: "length long_name = 300" by (simp add: long_name_def)
  have e: "entries long_name_store = []" by (simp add: long_name_store_def)
  have x: "exists long_name_store (long_name @ ''.json'')
             = Inl (OSError (''[Errno 36] File name too long: '' @ quoted (''prompts/'' @ long_name @ ''.json'')))"
    by (simp add: exists_def e long_name_store_def n l)
  have g: "get_category strict_sorted long_name_store long_name
       = Inl (OSError (''[Errno 36] File name too long: '' @ quoted (''prompts/'' @ long_name @ ''.json'')))"
    by (simp add: get_category_def p x)
  have t: "test_prompt_rendering strict_sorted long_name_store long_name ''t'' []
       = Failure (''Rendering failed: [Errno 36] File name too long: ''
                   @ quoted (''prompts/'' @ long_name @ ''.json''))"
    by (simp add: test_prompt_rendering_def g)
  have v: "save_category long_name_store long_name greeting = (False, long_name_store)"
    by (simp add: save_category_def p x)
  from e p g t v show ?thesis by simp
qed

subsection \<open>Defaults\<close>

lemma validate_str_is_str: "is_str j \<Longrightarrow> \<exists>v. validate_str rt j = Inr v"
  by (cases j) (simp_all add: is_str_def validate_str_def)

lemma validate_opt_str_ok: "is_opt_str j \<Longrightarrow> \<exists>v. validate_opt_str rt j = Inr v"
  by (cases j) (simp_all add: is_opt_str_def validate_opt_str_def)

lemma validate_opt_int_ok: "is_opt_int j \<Longrightarrow> \<exists>v. validate_opt_int rt j = Inr v"
  by (cases j) (simp_all add: is_opt_int_def validate_opt_int_def)

lemma the_strs_ok: "list_all is_str js \<Longrightarrow> \<exists>ss. the_strs js = Some ss"
proof (induction js)
  case Nil
  then show ?case by simp
next
  case (Cons j js)
  then show ?case by (cases j) (auto simp: is_str_def)
qed

lemma validate_str_list_ok: "is_str_list j \<Longrightarrow> \<exists>v. validate_str_list rt j = Inr v"
  by (cases j) (auto simp: is_str_list_def validate_str_list_def dest: the_strs_ok)

lemma PromptTemplate_init_wf:
  assumes "wf_template (JObj kw)"
  shows "\<exists>t. PromptTemplate_init rt kw = Inr t \<and> template_defaults kw t"
proof -
  obtain jc where jc: "map_of kw ''content'' = Some jc" "is_str jc"
    using assms by (auto simp: wf_template_def split: option.splits)
  obtain c where c: "validate_str rt jc = Inr c"
    using validate_str_is_str [OF jc(2)] by blast
  have d: "\<exists>v. (case map_of kw ''description'' of None \<Rightarrow> Inr (Some []) | Some j \<Rightarrow> validate_opt_str rt j) = Inr v
              \<and> (map_of kw ''description'' = None \<longrightarrow> v = Some [])"
    using assms by (auto simp: wf_template_def absent_or_def split: option.splits dest: validate_opt_str_ok)
  have v: "\<exists>v. (case map_of kw ''variables'' of None \<Rightarrow> Inr [] | Some j \<Rightarrow> validate_str_list rt j) = Inr v
              \<and> (map_of kw ''variables'' = None \<longrightarrow> v = [])"
    using assms by (auto simp: wf_template_def absent_or_def split: option.splits dest: validate_str_list_ok)
  have m: "\<exists>v. (case map_of kw ''model'' of None \<Rightarrow> Inr (Some ''claude-3-5-sonnet-20241022'')
                 | Some j \<Rightarrow> validate_opt_str rt j) = Inr v
              \<and> (map_of kw ''model'' = None \<longrightarrow> v = Some ''claude-3-5-sonnet-20241022'')"
    using assms by (auto simp: wf_template_def absent_or_def split: option.splits dest: validate_opt_str_ok)
  have x: "\<exists>v. (case map_of kw ''max_tokens'' of None \<Rightarrow> Inr (Some 1000) | Some j \<Rightarrow> validate_opt_int rt j) = Inr v
              \<and> (map_of kw ''max_tokens'' = None \<longrightarrow> v = Some 1000)"
    using assms by (auto simp: wf_template_def absent_or_def split: option.splits dest: validate_opt_int_ok)
  from d obtain vd where vd:
    "(case map_of kw ''description'' of None \<Rightarrow> Inr (Some []) | Some j \<Rightarrow> validate_opt_str rt j) = Inr vd"
    "map_of kw ''description'' = None \<longrightarrow> vd = Some []"
    by (elim exE conjE)
  from v obtain vv where vv:
    "(case map_of kw ''variables'' of None \<Rightarrow> Inr [] | Some j \<Rightarrow> validate_str_list rt j) = Inr vv"
    "map_of kw ''variables'' = None \<longrightarrow> vv = []"
    by (elim exE conjE)
  from m obtain vm where vm:
    "(case map_of kw ''model'' of None \<Rightarrow> Inr (Some ''claude-3-5-sonnet-20241022'')
                 | Some j \<Rightarrow> validate_opt_str rt j) = Inr vm"
    "map_of kw ''model'' = None \<longrightarrow> vm = Some ''claude-3-5-sonnet-20241022''"
    by (elim exE conjE)
  from x obtain vx where vx:
    "(case map_of kw ''max_tokens'' of None \<Rightarrow> Inr (Some 1000) | Some j \<Rightarrow> validate_opt_int rt j) = Inr vx"
    "map_of kw ''max_tokens'' = None \<longrightarrow> vx = Some 1000"
    by (elim exE conjE)
  from vd(2) vv(2) vm(2) vx(2) show ?thesis
    by (simp add: PromptTemplate_init_def jc c vd(1) vv(1) vm(1) vx(1) template_defaults_def)
qed


lemma load_templates_wf:
  assumes "distinct (map fst ts)" and "list_all (\<lambda>(name, td). wf_template td) ts"
  shows "\<exists>res. load_templates rt ts acc = Inr res
          \<and> (\<forall>name kw. map_of ts name = Some (JObj kw)
                \<longrightarrow> (\<exists>t. map_of res name = Some t \<and> template_defaults kw t))
          \<and> (\<forall>name. map_of ts name = None \<longrightarrow> map_of res name = map_of acc name)"
  using assms
proof (induction ts arbitrary: acc)
  case Nil
  then show ?case by simp
next
  case (Cons x ts)
  obtain n td where x: "x = (n, td)" by (cases x)
  from Cons.prems x have wf: "wf_template td" by simp
  then obtain kw where td: "td = JObj kw" by (cases td) (simp_all add: wf_template_def)
  obtain t where t: "PromptTemplate_init rt kw = Inr t" "template_defaults kw t"
    using PromptTemplate_init_wf wf td by blast
  from Cons.prems x have d: "distinct (map fst ts)" and w: "list_all (\<lambda>(name, td). wf_template td) ts"
    and nn: "n \<notin> fst ` set ts" by auto
  from Cons.IH [OF d w, of "AList.update n t acc"] obtain res where
    r: "load_templates rt ts (AList.update n t acc) = Inr res"
       "\<forall>name kw. map_of ts name = Some (JObj kw) \<longrightarrow> (\<exists>t. map_of res name = Some t \<and> template_defaults kw t)"
       "\<forall>name. map_of ts name = None \<longrightarrow> map_of res name = map_of (AList.update n t acc) name"
    by blast
  have none: "map_of ts n = None" using nn by (simp add: map_of_eq_None_iff)
  have l: "load_templates rt (x # ts) acc = Inr res" by (simp add: x td t r(1))
  have a: "\<exists>t'. map_of res name = Some t' \<and> template_defaults kw' t'"
    if "map_of (x # ts) name = Some (JObj kw')" for name kw'
  proof (cases "name = n")
    case True
    with that x td have "kw' = kw" by simp
    moreover have "map_of res n = Some t" using r(3) none by (simp add: update_conv')
    ultimately show ?thesis using t(2) True by simp
  next
    case False
    with that x have "map_of ts name = Some (JObj kw')" by simp
    with r(2) show ?thesis by blast
  qed
  have b: "map_of res name = map_of acc name" if "map_of (x # ts) name = None" for name
  proof -
    from that x have "name \<noteq> n" "map_of ts name = None" by (auto split: if_splits)
    with r(3) show ?thesis by (simp add: update_conv')
  qed
  from l a b show ?case by blast
qed

lemma json_get_str:
  assumes "absent_or is_str (map_of kv k)"
  shows "\<exists>v. json_get (JObj kv) k (JStr d) = Inr (JStr v) \<and> (map_of kv k = None \<longrightarrow> v = d)"
proof (cases "map_of kv k")
  case None
  then show ?thesis by (simp add: json_get_def)
next
  case (Some j)
  with assms have "is_str j" by (simp add: absent_or_def)
  then obtain v where "j = JStr v" by (cases j) (simp_all add: is_str_def)
  with Some show ?thesis by (simp add: json_get_def)
qed

lemma json_get_templates:
  assumes "absent_or wf_templates (map_of kv ''templates'')"
  shows "\<exists>ts. json_get (JObj kv) ''templates'' (JObj []) = Inr (JObj ts)
          \<and> distinct (map fst ts) \<and> list_all (\<lambda>(name, td). wf_template td) ts
          \<and> (map_of kv ''templates'' = None \<longrightarrow> ts = [])
          \<and> (\<forall>ts'. map_of kv ''templates'' = Some (JObj ts') \<longrightarrow> ts' = ts)"
proof (cases "map_of kv ''templates''")
  case None
  then show ?thesis by (simp add: json_get_def)
next
  case (Some j)
  with assms have w: "wf_templates j" by (simp add: absent_or_def)
  then obtain ts where j: "j = JObj ts" by (cases j) (simp_all add: wf_templates_def)
  with w have "distinct (map fst ts)" "list_all (\<lambda>(name, td). wf_template td) ts"
    by (simp_all add: wf_templates_def)
  with Some j show ?thesis by (simp add: json_get_def)
qed

text \<open>
  C10. Defaults on load: for a well-formed category document stored under \<open>n\<close>,
  \<open>get_category\<close> returns a category, in which an absent version is \<open>1.0.0\<close>, an absent
  description is empty, an absent declared name is \<open>n\<close> itself, an absent templates
  mapping is empty, and every template entry has the default of the class for each of
  description, variables, model and max_tokens that it lacks.
\<close>

theorem load_defaults:
  assumes "map_of (entries s) (get_category_file_path n) = Some (Doc (JObj kv))" and "wf_category (JObj kv)"
  shows "\<exists>pc. get_category rt s n = Inr (Some pc)
           \<and> (map_of kv ''version'' = None \<longrightarrow> c_version pc = ''1.0.0'')
           \<and> (map_of kv ''description'' = None \<longrightarrow> c_description pc = [])
           \<and> (map_of kv ''category'' = None \<longrightarrow> c_category pc = n)
           \<and> (map_of kv ''templates'' = None \<longrightarrow> c_templates pc = [])
           \<and> (\<forall>ts name kw. map_of kv ''templates'' = Some (JObj ts) \<and> map_of ts name = Some (JObj kw)
                \<longrightarrow> (\<exists>t. map_of (c_templates pc) name = Some t \<and> template_defaults kw t))"
proof -
  from assms(2) have wf:
    "absent_or is_str (map_of kv ''version'')" "absent_or is_str (map_of kv ''category'')"
    "absent_or is_str (map_of kv ''description'')" "absent_or wf_templates (map_of kv ''templates'')"
    by (simp_all add: wf_category_def)
  from json_get_templates [OF wf(4)] obtain ts where ts:
      "json_get (JObj kv) ''templates'' (JObj []) = Inr (JObj ts)"
      "distinct (map fst ts)" "list_all (\<lambda>(name, td). wf_template td) ts"
      "map_of kv ''templates'' = None \<longrightarrow> ts = []"
      "\<forall>ts'. map_of kv ''templates'' = Some (JObj ts') \<longrightarrow> ts' = ts"
    by (elim exE conjE)
  from load_templates_wf [OF ts(2) ts(3), of rt "[]"] obtain res where res:
      "load_templates rt ts [] = Inr res"
      "\<forall>name kw. map_of ts name = Some (JObj kw) \<longrightarrow> (\<exists>t. map_of res name = Some t \<and> template_defaults kw t)"
    by (elim exE conjE)
  have res0: "ts = [] \<longrightarrow> res = []" using res(1) by auto
  from json_get_str [OF wf(1), of "''1.0.0''"] obtain v where v:
      "json_get (JObj kv) ''version'' (JStr ''1.0.0'') = Inr (JStr v)"
      "map_of kv ''version'' = None \<longrightarrow> v = ''1.0.0''"
    by (elim exE conjE)
  from json_get_str [OF wf(2), of n] obtain c where c:
      "json_get (JObj kv) ''category'' (JStr n) = Inr (JStr c)"
      "map_of kv ''category'' = None \<longrightarrow> c = n"
    by (elim exE conjE)
  from json_get_str [OF wf(3), of "[]"] obtain d where d:
      "json_get (JObj kv) ''description'' (JStr []) = Inr (JStr d)"
      "map_of kv ''description'' = None \<longrightarrow> d = []"
    by (elim exE conjE)
  have g: "get_category rt s n
             = Inr (Some \<lparr>c_version = v, c_category = c, c_description = d, c_templates = res\<rparr>)"
    by (simp add: get_category_present [OF assms(1)] read_category_def ts(1) json_items_def res(1)
        v(1) c(1) d(1) PromptCategory_init_def validate_str_def)
  have t: "\<exists>t. map_of res name = Some t \<and> template_defaults kw t"
    if "map_of kv ''templates'' = Some (JObj ts')" "map_of ts' name = Some (JObj kw)" for ts' name kw
    using that ts(5) res(2) by blast
  show ?thesis
  proof (intro exI conjI)
    show "get_category rt s n
            = Inr (Some \<lparr>c_version = v, c_category = c, c_description = d, c_templates = res\<rparr>)"
      by (rule g)
  qed (use v(2) c(2) d(2) ts(4) res0 t in auto)
qed

theorem load_defaults_witness:
  "map_of (entries broken_store) (get_category_file_path ''bare'')
     = Some (Doc (JObj [(''templates'', JObj [(''t'', JObj [(''content'', JStr ''Hi'')])])]))
   \<and> wf_category (JObj [(''templates'', JObj [(''t'', JObj [(''content'', JStr ''Hi'')])])])
   \<and> (\<exists>pc t. get_category strict_sorted broken_store ''bare'' = Inr (Some pc)
         \<and> c_version pc = ''1.0.0'' \<and> c_description pc = [] \<and> c_category pc = ''bare''
         \<and> map_of (c_templates pc) ''t'' = Some t
         \<and> t_description t = Some [] \<and> t_variables t = []
         \<and> t_model t = Some ''claude-3-5-sonnet-20241022'' \<and> t_max_tokens t = Some 1000)"
proof -
  let ?kv = "[(''templates'', JObj [(''t'', JObj [(''content'', JStr ''Hi'')])])]"
  have a: "map_of (entries broken_store) (get_category_file_path ''bare'') = Some (Doc (JObj ?kv))"
    by (simp add: broken_store_def file_path_examples)
  have b: "wf_category (JObj ?kv)"
    by (simp add: wf_category_def absent_or_def wf_templates_def wf_template_def is_str_def)
  from load_defaults [OF a b, of strict_sorted] obtain pc where pc:
    "get_category strict_sorted broken_store ''bare'' = Inr (Some pc)"
    "map_of ?kv ''version'' = None \<longrightarrow> c_version pc = ''1.0.0''"
    "map_of ?kv ''description'' = None \<longrightarrow> c_description pc = []"
    "map_of ?kv ''category'' = None \<longrightarrow> c_category pc = ''bare''"
    "\<forall>ts name kw. map_of ?kv ''templates'' = Some (JObj ts) \<and> map_of ts name = Some (JObj kw)
        \<longrightarrow> (\<exists>t. map_of (c_templates pc) name = Some t \<and> template_defaults kw t)"
    by (elim exE conjE)
  from pc(5) have "\<exists>t. map_of (c_templates pc) ''t'' = Some t
                      \<and> template_defaults [(''content'', JStr ''Hi'')] t"
    by simp
  then obtain t where t: "map_of (c_templates pc) ''t'' = Some t"
    "template_defaults [(''content'', JStr ''Hi'')] t" by blast
  from t(2) have "t_description t = Some []" "t_variables t = []"
    "t_model t = Some ''claude-3-5-sonnet-20241022''" "t_max_tokens t = Some 1000"
    by (simp_all add: template_defaults_def)
  with a b pc(1-4) t(1) show ?thesis by simp
qed

subsection \<open>Scanning and rendering\<close>

lemma idstart_idchar: "idstart c \<Longrightarrow> idchar c"
  by (simp add: idchar_def)

lemma idstart_not_special [simp]:
  "\<not> idstart CHR ''$''" "\<not> idstart CHR ''{''" "\<not> idchar CHR ''}''" "\<not> idchar CHR ''$''"
  by (simp_all add: idstart_def idchar_def)

lemma scan_text: "c \<noteq> CHR ''$'' \<Longrightarrow> scan (c # cs) = Text c # scan cs"
  by (simp add: pattern_match_def)

lemma scan_escaped: "scan (CHR ''$'' # CHR ''$'' # rest) = Match escaped_match # scan rest"
  by (simp add: pattern_match_def escaped_match_def)

lemma scan_invalid:
  assumes "rest = [] \<or> (hd rest \<noteq> CHR ''$'' \<and> hd rest \<noteq> CHR ''{'' \<and> \<not> idstart (hd rest))"
  shows "scan (CHR ''$'' # rest) = Match invalid_match # scan rest"
  using assms by (auto simp: pattern_match_def invalid_match_def)

lemma takeWhile_identifier:
  assumes "list_all idchar i" and "rest = [] \<or> \<not> idchar (hd rest)"
  shows "takeWhile idchar (i @ rest) = i" and "dropWhile idchar (i @ rest) = rest"
proof -
  have a: "takeWhile idchar rest = []" and b: "dropWhile idchar rest = rest"
    using assms(2) by (cases rest; simp)+
  from assms(1) have c: "\<forall>x\<in>set i. idchar x" by (simp add: list_all_iff)
  from a c show "takeWhile idchar (i @ rest) = i" by (simp add: takeWhile_append2)
  from b c show "dropWhile idchar (i @ rest) = rest" by (simp add: dropWhile_append2)
qed

lemma scan_named:
  assumes "is_identifier i" and "rest = [] \<or> \<not> idchar (hd rest)"
  shows "scan (CHR ''$'' # i @ rest) = Match (named_match i) # scan rest"
proof -
  from assms(1) have i: "i \<noteq> []" "idstart (hd i)" "list_all idchar i"
    by (simp_all add: is_identifier_def)
  have h: "hd (i @ rest) = hd i" "i @ rest \<noteq> []" using i(1) by simp_all
  have d: "hd i \<noteq> CHR ''$''" using i(2) by auto
  show ?thesis
    using takeWhile_identifier [OF i(3) assms(2)] h d i(2)
    by (simp add: pattern_match_def named_match_def)
qed

lemma scan_braced:
  assumes "is_identifier i"
  shows "scan (''${'' @ i @ ''}'' @ rest) = Match (braced_match i) # scan rest"
proof -
  from assms(1) have i: "i \<noteq> []" "idstart (hd i)" "list_all idchar i"
    by (simp_all add: is_identifier_def)
  have r: "CHR ''}'' # rest = [] \<or> \<not> idchar (hd (CHR ''}'' # rest))" by simp
  have h: "hd (i @ CHR ''}'' # rest) = hd i" using i(1) by simp
  show ?thesis
    using takeWhile_identifier [OF i(3) r] h i(1,2)
    by (simp add: pattern_match_def braced_match_def)
qed

lemma pattern_match_groups:
  assumes "pattern_match s = Some (mo, rest)"
  shows "groups_ok (Match mo)"
proof -
  have "takeWhile idchar r \<noteq> []" if "r \<noteq> []" "idstart (hd r)" for r
    using that by (cases r) (simp_all add: idstart_idchar)
  then show ?thesis using assms
    by (auto simp: pattern_match_def groups_ok_def py_or_def no_groups_def split: list.splits if_splits)
qed

lemma pattern_match_source:
  assumes "pattern_match s = Some (mo, rest)"
  shows "whole mo @ rest = s"
proof -
  have t: "takeWhile idchar r @ dropWhile idchar r = r" for r by simp
  have c: "hd r # tl r = r" if "r \<noteq> []" for r :: string using that by simp
  show ?thesis
  proof (cases s)
    case Nil
    with assms show ?thesis by (simp add: pattern_match_def)
  next
    case (Cons c r)
    show ?thesis
    proof (cases r)
      case Nil
      with assms Cons show ?thesis
        by (auto simp: pattern_match_def no_groups_def split: if_splits)
    next
      case r: (Cons d r')
      have b: "CHR ''{'' # takeWhile idchar r' @ CHR ''}'' # tl (dropWhile idchar r') = CHR ''{'' # r'"
        if "dropWhile idchar r' \<noteq> []" "hd (dropWhile idchar r') = CHR ''}''"
      proof -
        from that have "CHR ''}'' # tl (dropWhile idchar r') = dropWhile idchar r'"
          by (metis list.collapse)
        then show ?thesis by (simp del: takeWhile_dropWhile_id add: t)
      qed
      from assms Cons r b show ?thesis
        by (auto simp: pattern_match_def no_groups_def split: if_splits)
    qed
  qed
qed

lemma scan_groups_ok: "list_all groups_ok (scan s)"
proof (induction s rule: scan.induct)
  case 1
  then show ?case by simp
next
  case (2 c cs)
  show ?case
  proof (cases "pattern_match (c # cs)")
    case None
    with 2 show ?thesis by (simp add: groups_ok_def)
  next
    case (Some p)
    obtain mo rest where p: "p = (mo, rest)" by (cases p)
    with 2 Some pattern_match_groups [of "c # cs" mo rest] show ?thesis by simp
  qed
qed

lemma scan_source: "concat (map seg_source (scan s)) = s"
proof (induction s rule: scan.induct)
  case 1
  then show ?case by simp
next
  case (2 c cs)
  show ?case
  proof (cases "pattern_match (c # cs)")
    case None
    with 2 show ?thesis by simp
  next
    case (Some p)
    obtain mo rest where p: "p = (mo, rest)" by (cases p)
    with 2 Some pattern_match_source [of "c # cs" mo rest] show ?thesis by simp
  qed
qed

lemma seg_names_simps [simp]:
  "seg_names [] = {}"
  "seg_names (Text c # segs) = seg_names segs"
  "seg_names (Match mo # segs)
     = (case py_or (named mo) (braced mo) of None \<Rightarrow> {} | Some i \<Rightarrow> {i}) \<union> seg_names segs"
  by (auto simp: seg_names_def split: option.splits)

lemma finite_seg_names [simp]: "finite (seg_names segs)"
proof -
  have "seg_names segs \<subseteq> the ` seg_name ` set segs"
    by (force simp: seg_names_def)
  then show ?thesis by (rule finite_subset) simp
qed

lemma sub_concat:
  "list_all groups_ok segs \<Longrightarrow> sub m segs = Inr (concat (map (seg_out m) segs))"
proof (induction segs)
  case Nil
  then show ?case by simp
next
  case (Cons seg segs)
  then show ?case
    by (cases seg) (auto simp: groups_ok_def convert_def split: option.splits)
qed

lemma get_identifiers_loop_ok:
  "list_all groups_ok segs \<Longrightarrow>
     \<exists>ids. get_identifiers_loop segs acc = Inr ids
         \<and> set ids = set acc \<union> seg_names segs \<and> (distinct acc \<longrightarrow> distinct ids)"
proof (induction segs arbitrary: acc)
  case Nil
  then show ?case by simp
next
  case (Cons seg segs)
  show ?case
  proof (cases seg)
    case (Text c)
    with Cons show ?thesis by simp
  next
    case (Match mo)
    from Cons.prems have ok: "list_all groups_ok segs" by simp
    show ?thesis
    proof (cases "py_or (named mo) (braced mo)")
      case None
      with Cons.prems Match have "invalid mo \<noteq> None \<or> escaped mo \<noteq> None"
        by (auto simp: groups_ok_def)
      with None Match Cons.IH [OF ok, of acc] show ?thesis by auto
    next
      case (Some i)
      show ?thesis
      proof (cases "i \<in> set acc")
        case True
        with Some Match Cons.IH [OF ok, of acc] show ?thesis by auto
      next
        case False
        with Some Match Cons.IH [OF ok, of "acc @ [i]"] show ?thesis by auto
      qed
    qed
  qed
qed

lemma get_identifiers_ok:
  "\<exists>ids. get_identifiers c = Inr ids \<and> set ids = seg_names (scan c) \<and> distinct ids"
  using get_identifiers_loop_ok [OF scan_groups_ok, of c "[]"] by (simp add: get_identifiers_def)

lemma safe_substitute_eq:
  "safe_substitute c vars = Inr (concat (map (seg_out (map_of vars)) (scan c)))"
  by (simp add: safe_substitute_def sub_concat scan_groups_ok)

lemma render_eq:
  "get_identifiers c = Inr ids \<Longrightarrow>
   render rt c vars =
     Inr \<lparr>rendered_prompt = concat (map (seg_out (map_of vars)) (scan c)),
          missing_variables = list_of_diff rt ids (map fst vars),
          template_variables = list_of_set rt ids,
          provided_variables = list_of_set rt (map fst vars)\<rparr>"
  by (simp add: render_def safe_substitute_eq Let_def)

lemma valid_iter_set: "valid_iter rt \<Longrightarrow> set (list_of_diff rt xs ys) = set xs - set ys"
  and valid_iter_distinct: "valid_iter rt \<Longrightarrow> distinct (list_of_diff rt xs ys)"
  by (simp_all add: valid_iter_def)

lemma distinct_single:
  assumes "set zs = {a}" and "distinct zs"
  shows "zs = [a]"
proof (cases zs)
  case Nil
  with assms(1) show ?thesis by simp
next
  case (Cons x xs)
  with assms(1) have x: "x = a" by auto
  have "xs = []"
  proof (rule ccontr)
    assume "xs \<noteq> []"
    then obtain y where y: "y \<in> set xs" by (cases xs) auto
    with assms(1) Cons have "y = a" by auto
    with y assms(2) Cons x show False by simp
  qed
  with Cons x show ?thesis by simp
qed

lemma valid_iter_empty:
  assumes "valid_iter rt" and "set xs - set ys = {}"
  shows "list_of_diff rt xs ys = []"
proof -
  have "set (list_of_diff rt xs ys) = {}"
    using valid_iter_set [OF assms(1), of xs ys] assms(2) by (simp only:)
  then show ?thesis by simp
qed

lemma valid_iter_single:
  assumes "valid_iter rt" and "set xs - set ys = {a}"
  shows "list_of_diff rt xs ys = [a]"
  using valid_iter_set [OF assms(1), of xs ys] valid_iter_distinct [OF assms(1), of xs ys] assms(2)
  by (simp add: distinct_single)

lemma identifiers_hello: "get_identifiers ''Hello $name, you are ${age}'' = Inr [''name'', ''age'']"
  by (simp add: get_identifiers_def pattern_match_def idstart_def idchar_def no_groups_def py_or_def)

lemma substitute_hello: "safe_substitute ''Hello $name, you are ${age}'' [(''name'', ''Ada'')] = Inr ''Hello Ada, you are ${age}''"
  by (simp add: safe_substitute_def pattern_match_def idstart_def idchar_def no_groups_def py_or_def convert_def)

lemma identifiers_price: "get_identifiers ''Cost: $$5 for $item'' = Inr [''item'']"
  by (simp add: get_identifiers_def pattern_match_def idstart_def idchar_def no_groups_def py_or_def)

lemma substitute_price: "safe_substitute ''Cost: $$5 for $item'' [(''item'', ''widget'')] = Inr ''Cost: $5 for widget''"
  by (simp add: safe_substitute_def pattern_match_def idstart_def idchar_def no_groups_def py_or_def convert_def)

lemma valid_iter_sorted: "valid_iter strict_sorted"
  by (auto simp: valid_iter_def strict_sorted_def)

lemma identifiers_order: "get_identifiers ''$b $a'' = Inr [''b'', ''a'']"
  by (simp add: get_identifiers_def pattern_match_def idstart_def idchar_def no_groups_def py_or_def)

lemma substitute_order: "safe_substitute ''$b $a'' [] = Inr ''$b $a''"
  by (simp add: safe_substitute_def pattern_match_def idstart_def idchar_def no_groups_def py_or_def convert_def)

lemma get_category_order: "get_category strict_sorted order_store ''order''
   = Inr (Some \<lparr>c_version = ''1.0.0'', c_category = ''order'', c_description = [],
           c_templates = [(''t'', \<lparr>t_content = ''$b $a'', t_description = Some [], t_variables = [],
              t_model = Some ''claude-3-5-sonnet-20241022'', t_max_tokens = Some 1000\<rparr>)]\<rparr>)"
  by (simp add: get_category_def exists_def file_path_examples order_store_def read_category_def
      json_get_def json_items_def PromptTemplate_init_def validate_str_def PromptCategory_init_def)

lemma render_total:
  "\<exists>ids. get_identifiers c = Inr ids \<and> set ids = seg_names (scan c) \<and> distinct ids
     \<and> render rt c vars =
         Inr \<lparr>rendered_prompt = concat (map (seg_out (map_of vars)) (scan c)),
              missing_variables = list_of_diff rt ids (map fst vars),
              template_variables = list_of_set rt ids,
              provided_variables = list_of_set rt (map fst vars)\<rparr>"
  using get_identifiers_ok [of c] render_eq [of c _ rt vars] by blast

lemma test_prompt_rendering_found:
  assumes "get_category rt s cat = Inr (Some pc)" and "map_of (c_templates pc) tn = Some t"
    and "render rt (t_content t) vars = Inr r"
  shows "test_prompt_rendering rt s cat tn vars = Success r"
  using assms by (simp add: test_prompt_rendering_def)

lemma missing_set:
  assumes "valid_iter rt" and "render rt c vars = Inr r"
  shows "set (missing_variables r) = seg_names (scan c) - fst ` set vars"
    and "distinct (missing_variables r)"
proof -
  from render_total [of c rt vars] assms(2) obtain ids where
    ids: "set ids = seg_names (scan c)"
    and m: "missing_variables r = list_of_diff rt ids (map fst vars)"
    by auto
  show "set (missing_variables r) = seg_names (scan c) - fst ` set vars"
    using valid_iter_set [OF assms(1), of ids "map fst vars"] ids m by simp
  show "distinct (missing_variables r)"
    using valid_iter_distinct [OF assms(1), of ids "map fst vars"] m by simp
qed

lemma rendered_eq:
  assumes "render rt c vars = Inr r"
  shows "rendered_prompt r = concat (map (seg_out (map_of vars)) (scan c))"
  using render_total [of c rt vars] assms by auto

lemma map_of_absent: "i \<notin> fst ` set vars \<Longrightarrow> map_of vars i = None"
  by (simp add: map_of_eq_None_iff)

lemma seg_kept:
  assumes "seg_name seg = Some i" and "i \<notin> fst ` set vars"
  shows "seg_out (map_of vars) seg = seg_source seg"
  using assms by (cases seg) (simp_all add: map_of_absent)

lemma named_match_simps [simp]:
  "is_identifier i \<Longrightarrow> seg_name (Match (named_match i)) = Some i"
  "seg_source (Match (named_match i)) = CHR ''$'' # i"
  "is_identifier i \<Longrightarrow> seg_name (Match (braced_match i)) = Some i"
  "seg_source (Match (braced_match i)) = ''${'' @ i @ ''}''"
  by (simp_all add: named_match_def braced_match_def no_groups_def py_or_def is_identifier_def)

lemma escaped_invalid_simps [simp]:
  "seg_out m (Match escaped_match) = ''$''" "seg_name (Match escaped_match) = None"
  "seg_out m (Match invalid_match) = ''$''" "seg_name (Match invalid_match) = None"
  by (simp_all add: escaped_match_def invalid_match_def no_groups_def py_or_def)

text \<open>What a head segment contributes to the rendering of the whole text.\<close>

lemma render_head:
  assumes "valid_iter rt" and "scan c' = seg # scan c"
  shows "\<exists>r r'. render rt c vars = Inr r \<and> render rt c' vars = Inr r'
           \<and> rendered_prompt r' = seg_out (map_of vars) seg @ rendered_prompt r
           \<and> set (missing_variables r')
               = (case seg_name seg of None \<Rightarrow> {} | Some i \<Rightarrow> {i} - fst ` set vars)
                 \<union> set (missing_variables r)"
proof -
  obtain r where r: "render rt c vars = Inr r" using render_total [of c rt vars] by blast
  obtain r' where r': "render rt c' vars = Inr r'" using render_total [of c' rt vars] by blast
  have n: "seg_names (seg # scan c) = (case seg_name seg of None \<Rightarrow> {} | Some i \<Rightarrow> {i}) \<union> seg_names (scan c)"
    by (cases seg) simp_all
  have "set (missing_variables r')
          = (case seg_name seg of None \<Rightarrow> {} | Some i \<Rightarrow> {i} - fst ` set vars) \<union> set (missing_variables r)"
    using missing_set(1) [OF assms(1) r] missing_set(1) [OF assms(1) r'] assms(2) n
    by (auto split: option.splits)
  then show ?thesis
    using r r' rendered_eq [OF r] rendered_eq [OF r'] assms(2) by simp
qed

lemma render_head_same:
  assumes "scan c' = seg # scan c" and "seg_name seg = None"
  shows "\<exists>r r'. render rt c vars = Inr r \<and> render rt c' vars = Inr r'
           \<and> rendered_prompt r' = seg_out (map_of vars) seg @ rendered_prompt r
           \<and> missing_variables r' = missing_variables r
           \<and> template_variables r' = template_variables r"
proof -
  have "list_all groups_ok (scan c')" by (rule scan_groups_ok)
  with assms(1) have "groups_ok seg" by simp
  with assms have g: "get_identifiers c' = get_identifiers c"
    by (cases seg) (auto simp: get_identifiers_def groups_ok_def)
  obtain ids where ids: "get_identifiers c = Inr ids" using get_identifiers_ok [of c] by blast
  show ?thesis
    using render_eq [OF ids, of rt vars] render_eq [of c' ids rt vars] g ids assms(1) by simp
qed

text \<open>
  C3. Missing variables: \<open>test_prompt_rendering\<close> on a template that exists succeeds
  whatever variables are provided; on the content \<open>Hello $name, you are ${age}\<close> with
  \<open>name\<close> set to \<open>Ada\<close> it renders \<open>Hello Ada, you are ${age}\<close> and reports \<open>age\<close>
  as the one missing variable. In general the rendered text is the concatenation of one
  output per segment of the content, and the output of every placeholder whose
  identifier is no provided key is the placeholder as written, its identifier being
  reported missing; so it is for \<open>$i\<close> and for \<open>${i}\<close> at the head of any text.
\<close>

theorem missing_variables_kept:
  assumes "valid_iter rt"
  shows "(get_category rt s cat = Inr (Some pc) \<and> map_of (c_templates pc) tn = Some t
            \<longrightarrow> (\<exists>r. test_prompt_rendering rt s cat tn vars = Success r
                    \<and> render rt (t_content t) vars = Inr r))
       \<and> (get_category rt s cat = Inr (Some pc) \<and> map_of (c_templates pc) tn = Some t
            \<and> t_content t = ''Hello $name, you are ${age}''
            \<longrightarrow> (\<exists>r. test_prompt_rendering rt s cat tn [(''name'', ''Ada'')] = Success r
                    \<and> rendered_prompt r = ''Hello Ada, you are ${age}''
                    \<and> missing_variables r = [''age'']))
       \<and> (\<exists>r outs. render rt content vars = Inr r
              \<and> concat (map seg_source (scan content)) = content
              \<and> length outs = length (scan content)
              \<and> rendered_prompt r = concat outs
              \<and> (\<forall>k<length outs. \<forall>i. seg_name (scan content ! k) = Some i \<and> i \<notin> fst ` set vars
                    \<longrightarrow> outs ! k = seg_source (scan content ! k) \<and> i \<in> set (missing_variables r)))
       \<and> (is_identifier i \<and> i \<notin> fst ` set vars \<and> (rest = [] \<or> \<not> idchar (hd rest))
            \<longrightarrow> (\<exists>r r'. render rt rest vars = Inr r \<and> render rt (CHR ''$'' # i @ rest) vars = Inr r'
                    \<and> rendered_prompt r' = CHR ''$'' # i @ rendered_prompt r
                    \<and> i \<in> set (missing_variables r')))
       \<and> (is_identifier i \<and> i \<notin> fst ` set vars
            \<longrightarrow> (\<exists>r r'. render rt rest vars = Inr r \<and> render rt (''${'' @ i @ ''}'' @ rest) vars = Inr r'
                    \<and> rendered_prompt r' = ''${'' @ i @ ''}'' @ rendered_prompt r
                    \<and> i \<in> set (missing_variables r')))"
proof (intro conjI impI)
  assume a: "get_category rt s cat = Inr (Some pc) \<and> map_of (c_templates pc) tn = Some t"
  obtain r where r: "render rt (t_content t) vars = Inr r"
    using render_total [of "t_content t" rt vars] by blast
  with a test_prompt_rendering_found [of rt s cat pc tn t vars r]
  show "\<exists>r. test_prompt_rendering rt s cat tn vars = Success r \<and> render rt (t_content t) vars = Inr r"
    by blast
next
  assume a: "get_category rt s cat = Inr (Some pc) \<and> map_of (c_templates pc) tn = Some t
               \<and> t_content t = ''Hello $name, you are ${age}''"
  have "render rt ''Hello $name, you are ${age}'' [(''name'', ''Ada'')]
          = Inr \<lparr>rendered_prompt = ''Hello Ada, you are ${age}'',
                 missing_variables = list_of_diff rt [''name'', ''age''] [''name''],
                 template_variables = list_of_set rt [''name'', ''age''],
                 provided_variables = list_of_set rt [''name'']\<rparr>"
    by (simp add: render_def identifiers_hello substitute_hello Let_def)
  moreover have "set [''name'', ''age''] - set [''name''] = {''age''}" by auto
  ultimately have "render rt ''Hello $name, you are ${age}'' [(''name'', ''Ada'')]
          = Inr \<lparr>rendered_prompt = ''Hello Ada, you are ${age}'',
                 missing_variables = [''age''],
                 template_variables = list_of_set rt [''name'', ''age''],
                 provided_variables = list_of_set rt [''name'']\<rparr>"
    using valid_iter_single [OF assms, of "[''name'', ''age'']" "[''name'']" "''age''"] by simp
  with a test_prompt_rendering_found [of rt s cat pc tn t "[(''name'', ''Ada'')]"]
  show "\<exists>r. test_prompt_rendering rt s cat tn [(''name'', ''Ada'')] = Success r
            \<and> rendered_prompt r = ''Hello Ada, you are ${age}'' \<and> missing_variables r = [''age'']"
    by simp
next
  obtain r where r: "render rt content vars = Inr r"
    using render_total [of content rt vars] by blast
  let ?outs = "map (seg_out (map_of vars)) (scan content)"
  have k: "?outs ! k = seg_source (scan content ! k) \<and> i \<in> set (missing_variables r)"
    if "k < length ?outs" "seg_name (scan content ! k) = Some i \<and> i \<notin> fst ` set vars" for k i
  proof -
    from that(1) have m: "scan content ! k \<in> set (scan content)" by simp
    with that(2) have "i \<in> seg_names (scan content)" by (auto simp: seg_names_def)
    with that(2) have "i \<in> set (missing_variables r)"
      using missing_set(1) [OF assms r] by simp
    moreover have "?outs ! k = seg_source (scan content ! k)"
      using that seg_kept [of "scan content ! k" i vars] by simp
    ultimately show ?thesis by simp
  qed
  show "\<exists>r outs. render rt content vars = Inr r
          \<and> concat (map seg_source (scan content)) = content
          \<and> length outs = length (scan content)
          \<and> rendered_prompt r = concat outs
          \<and> (\<forall>k<length outs. \<forall>i. seg_name (scan content ! k) = Some i \<and> i \<notin> fst ` set vars
                \<longrightarrow> outs ! k = seg_source (scan content ! k) \<and> i \<in> set (missing_variables r))"
  proof (intro exI conjI)
    show "render rt content vars = Inr r" by (rule r)
    show "concat (map seg_source (scan content)) = content" by (rule scan_source)
    show "length ?outs = length (scan content)" by simp
    show "rendered_prompt r = concat ?outs" by (rule rendered_eq [OF r])
    show "\<forall>k<length ?outs. \<forall>i. seg_name (scan content ! k) = Some i \<and> i \<notin> fst ` set vars
            \<longrightarrow> ?outs ! k = seg_source (scan content ! k) \<and> i \<in> set (missing_variables r)"
      using k by blast
  qed
next
  assume a: "is_identifier i \<and> i \<notin> fst ` set vars \<and> (rest = [] \<or> \<not> idchar (hd rest))"
  then have sc: "scan (CHR ''$'' # i @ rest) = Match (named_match i) # scan rest"
    using scan_named by blast
  from a have id: "is_identifier i" and ni: "i \<notin> fst ` set vars" by simp_all
  have n: "seg_name (Match (named_match i)) = Some i" using id by (rule named_match_simps(1))
  have "seg_out (map_of vars) (Match (named_match i)) = seg_source (Match (named_match i))"
    using n ni by (rule seg_kept)
  then have o: "seg_out (map_of vars) (Match (named_match i)) = CHR ''$'' # i"
    by (simp only: named_match_simps(2))
  from render_head [OF assms sc, of vars] obtain r r' where rr:
    "render rt rest vars = Inr r" "render rt (CHR ''$'' # i @ rest) vars = Inr r'"
    "rendered_prompt r' = seg_out (map_of vars) (Match (named_match i)) @ rendered_prompt r"
    "set (missing_variables r')
       = (case seg_name (Match (named_match i)) of None \<Rightarrow> {} | Some i \<Rightarrow> {i} - fst ` set vars)
         \<union> set (missing_variables r)"
    by blast
  from rr(4) ni have m: "i \<in> set (missing_variables r')" by (simp add: n del: seg_name.simps)
  from rr(3) have p: "rendered_prompt r' = CHR ''$'' # i @ rendered_prompt r" by (simp add: o del: seg_out.simps)
  from rr(1,2) m p
  show "\<exists>r r'. render rt rest vars = Inr r \<and> render rt (CHR ''$'' # i @ rest) vars = Inr r'
          \<and> rendered_prompt r' = CHR ''$'' # i @ rendered_prompt r \<and> i \<in> set (missing_variables r')"
    by blast
next
  assume a: "is_identifier i \<and> i \<notin> fst ` set vars"
  then have sc: "scan (''${'' @ i @ ''}'' @ rest) = Match (braced_match i) # scan rest"
    using scan_braced by blast
  from a have id: "is_identifier i" and ni: "i \<notin> fst ` set vars" by simp_all
  have n: "seg_name (Match (braced_match i)) = Some i" using id by (rule named_match_simps(3))
  have "seg_out (map_of vars) (Match (braced_match i)) = seg_source (Match (braced_match i))"
    using n ni by (rule seg_kept)
  then have o: "seg_out (map_of vars) (Match (braced_match i)) = ''${'' @ i @ ''}''"
    by (simp only: named_match_simps(4))
  from render_head [OF assms sc, of vars] obtain r r' where rr:
    "render rt rest vars = Inr r" "render rt (''${'' @ i @ ''}'' @ rest) vars = Inr r'"
    "rendered_prompt r' = seg_out (map_of vars) (Match (braced_match i)) @ rendered_prompt r"
    "set (missing_variables r')
       = (case seg_name (Match (braced_match i)) of None \<Rightarrow> {} | Some i \<Rightarrow> {i} - fst ` set vars)
         \<union> set (missing_variables r)"
    by blast
  from rr(4) ni have m: "i \<in> set (missing_variables r')" by (simp add: n del: seg_name.simps)
  from rr(3) have p: "rendered_prompt r' = ''${'' @ i @ ''}'' @ rendered_prompt r"
    by (simp add: o del: seg_out.simps)
  from rr(1,2) m p
  show "\<exists>r r'. render rt rest vars = Inr r \<and> render rt (''${'' @ i @ ''}'' @ rest) vars = Inr r'
          \<and> rendered_prompt r' = ''${'' @ i @ ''}'' @ rendered_prompt r \<and> i \<in> set (missing_variables r')"
    by blast
qed

lemma get_category_greeting: "get_category rt greeting_store ''greeting'' = Inr (Some greeting)"
proof -
  have d: "distinct (map fst (c_templates greeting))" by (simp add: greeting_def)
  have "map_of (entries greeting_store) (get_category_file_path ''greeting'')
          = Some (Doc (category_data greeting))"
    by (simp add: greeting_store_def file_path_examples map_of_write_file_same)
  then show ?thesis
    by (simp add: get_category_present read_category_roundtrip [OF d])
qed

theorem missing_variables_kept_witness:
  "valid_iter strict_sorted
   \<and> get_category strict_sorted greeting_store ''greeting'' = Inr (Some greeting)
   \<and> map_of (c_templates greeting) ''hello'' = Some hello_template
   \<and> t_content hello_template = ''Hello $name, you are ${age}''
   \<and> (\<exists>r. test_prompt_rendering strict_sorted greeting_store ''greeting'' ''hello'' [(''name'', ''Ada'')]
            = Success r
          \<and> rendered_prompt r = ''Hello Ada, you are ${age}'' \<and> missing_variables r = [''age''])
   \<and> is_identifier ''age'' \<and> ''age'' \<notin> fst ` set [(''name'', ''Ada'')]
   \<and> (\<exists>r r'. render strict_sorted '' years'' [(''name'', ''Ada'')] = Inr r
          \<and> render strict_sorted ''$age years'' [(''name'', ''Ada'')] = Inr r'
          \<and> rendered_prompt r' = ''$age'' @ rendered_prompt r \<and> ''age'' \<in> set (missing_variables r'))
   \<and> (\<exists>r r'. render strict_sorted '' years'' [(''name'', ''Ada'')] = Inr r
          \<and> render strict_sorted ''${age} years'' [(''name'', ''Ada'')] = Inr r'
          \<and> rendered_prompt r' = ''${age}'' @ rendered_prompt r \<and> ''age'' \<in> set (missing_variables r'))"
proof -
  have v: "valid_iter strict_sorted" by (rule valid_iter_sorted)
  have g: "get_category strict_sorted greeting_store ''greeting'' = Inr (Some greeting)"
    by (rule get_category_greeting)
  have m: "map_of (c_templates greeting) ''hello'' = Some hello_template"
    by (simp add: greeting_def)
  have c: "t_content hello_template = ''Hello $name, you are ${age}''"
    by (simp add: hello_template_def)
  have i: "is_identifier ''age''" by (simp add: is_identifier_def idstart_def idchar_def)
  have n: "''age'' \<notin> fst ` set [(''name'', ''Ada'')]" by simp
  have r: "'' years'' = [] \<or> \<not> idchar (hd '' years'')" by (simp add: idchar_def idstart_def)
  note t = missing_variables_kept [OF v, of greeting_store "''greeting''" greeting "''hello''"
      hello_template "[(''name'', ''Ada'')]" "''Hello $name, you are ${age}''" "''age''" "'' years''"]
  from t g m c have e: "\<exists>r. test_prompt_rendering strict_sorted greeting_store ''greeting'' ''hello''
              [(''name'', ''Ada'')] = Success r
          \<and> rendered_prompt r = ''Hello Ada, you are ${age}'' \<and> missing_variables r = [''age'']"
    by blast
  from t i n r have d1: "\<exists>r r'. render strict_sorted '' years'' [(''name'', ''Ada'')] = Inr r
          \<and> render strict_sorted (CHR ''$'' # ''age'' @ '' years'') [(''name'', ''Ada'')] = Inr r'
          \<and> rendered_prompt r' = CHR ''$'' # ''age'' @ rendered_prompt r \<and> ''age'' \<in> set (missing_variables r')"
    by blast
  from t i n have d2: "\<exists>r r'. render strict_sorted '' years'' [(''name'', ''Ada'')] = Inr r
          \<and> render strict_sorted (''${'' @ ''age'' @ ''}'' @ '' years'') [(''name'', ''Ada'')] = Inr r'
          \<and> rendered_prompt r' = ''${'' @ ''age'' @ ''}'' @ rendered_prompt r \<and> ''age'' \<in> set (missing_variables r')"
    by blast
  from v g m c e i n d1 d2 show ?thesis by simp
qed

lemma render_price:
  assumes "valid_iter rt"
  shows "render rt ''Cost: $$5 for $item'' [(''item'', ''widget'')]
          = Inr \<lparr>rendered_prompt = ''Cost: $5 for widget'', missing_variables = [],
                 template_variables = list_of_set rt [''item''],
                 provided_variables = list_of_set rt [''item'']\<rparr>"
  using valid_iter_empty [OF assms, of "[''item'']" "[''item'']"]
  by (simp add: render_def identifiers_price substitute_price Let_def)

text \<open>
  C7. Escaping: on the content \<open>Cost: $$5 for $item\<close> with \<open>item\<close> set to \<open>widget\<close>,
  \<open>test_prompt_rendering\<close> renders \<open>Cost: $5 for widget\<close> and reports nothing missing.
  In general, at the head of any text \<open>$$\<close> renders as one dollar sign and adds no
  identifier; a dollar sign at the end of the text, or followed by a character that is
  neither \<open>$\<close>, \<open>{\<close> nor the start of an identifier, renders as itself and adds no
  identifier; and so does every character other than the dollar sign.
\<close>

theorem escaping:
  assumes "valid_iter rt"
  shows "(get_category rt s cat = Inr (Some pc) \<and> map_of (c_templates pc) tn = Some t
            \<and> t_content t = ''Cost: $$5 for $item''
            \<longrightarrow> (\<exists>r. test_prompt_rendering rt s cat tn [(''item'', ''widget'')] = Success r
                    \<and> rendered_prompt r = ''Cost: $5 for widget'' \<and> missing_variables r = []))
       \<and> (\<exists>r r'. render rt rest vars = Inr r \<and> render rt (''$$'' @ rest) vars = Inr r'
              \<and> rendered_prompt r' = ''$'' @ rendered_prompt r
              \<and> missing_variables r' = missing_variables r
              \<and> template_variables r' = template_variables r)
       \<and> (rest = [] \<or> (hd rest \<noteq> CHR ''$'' \<and> hd rest \<noteq> CHR ''{'' \<and> \<not> idstart (hd rest))
            \<longrightarrow> (\<exists>r r'. render rt rest vars = Inr r \<and> render rt (CHR ''$'' # rest) vars = Inr r'
                    \<and> rendered_prompt r' = CHR ''$'' # rendered_prompt r
                    \<and> missing_variables r' = missing_variables r
                    \<and> template_variables r' = template_variables r))
       \<and> (c \<noteq> CHR ''$''
            \<longrightarrow> (\<exists>r r'. render rt rest vars = Inr r \<and> render rt (c # rest) vars = Inr r'
                    \<and> rendered_prompt r' = c # rendered_prompt r
                    \<and> missing_variables r' = missing_variables r
                    \<and> template_variables r' = template_variables r))"
proof (intro conjI impI)
  assume a: "get_category rt s cat = Inr (Some pc) \<and> map_of (c_templates pc) tn = Some t
               \<and> t_content t = ''Cost: $$5 for $item''"
  with test_prompt_rendering_found [of rt s cat pc tn t "[(''item'', ''widget'')]"] render_price [OF assms]
  show "\<exists>r. test_prompt_rendering rt s cat tn [(''item'', ''widget'')] = Success r
            \<and> rendered_prompt r = ''Cost: $5 for widget'' \<and> missing_variables r = []"
    by simp
next
  have sc: "scan (''$$'' @ rest) = Match escaped_match # scan rest"
    by (simp only: append_Cons append_Nil scan_escaped)
  from render_head_same [OF sc, of rt vars]
  show "\<exists>r r'. render rt rest vars = Inr r \<and> render rt (''$$'' @ rest) vars = Inr r'
          \<and> rendered_prompt r' = ''$'' @ rendered_prompt r
          \<and> missing_variables r' = missing_variables r \<and> template_variables r' = template_variables r"
    by (simp del: seg_out.simps seg_name.simps)
next
  assume "rest = [] \<or> (hd rest \<noteq> CHR ''$'' \<and> hd rest \<noteq> CHR ''{'' \<and> \<not> idstart (hd rest))"
  then have sc: "scan (CHR ''$'' # rest) = Match invalid_match # scan rest"
    by (rule scan_invalid)
  from render_head_same [OF sc, of rt vars]
  show "\<exists>r r'. render rt rest vars = Inr r \<and> render rt (CHR ''$'' # rest) vars = Inr r'
          \<and> rendered_prompt r' = CHR ''$'' # rendered_prompt r
          \<and> missing_variables r' = missing_variables r \<and> template_variables r' = template_variables r"
    by (simp del: seg_out.simps seg_name.simps)
next
  assume "c \<noteq> CHR ''$''"
  then have sc: "scan (c # rest) = Text c # scan rest" by (rule scan_text)
  from render_head_same [OF sc, of rt vars]
  show "\<exists>r r'. render rt rest vars = Inr r \<and> render rt (c # rest) vars = Inr r'
          \<and> rendered_prompt r' = c # rendered_prompt r
          \<and> missing_variables r' = missing_variables r \<and> template_variables r' = template_variables r"
    by simp
qed

theorem escaping_witness:
  "valid_iter strict_sorted
   \<and> get_category strict_sorted greeting_store ''greeting'' = Inr (Some greeting)
   \<and> map_of (c_templates greeting) ''price'' = Some price_template
   \<and> t_content price_template = ''Cost: $$5 for $item''
   \<and> (\<exists>r. test_prompt_rendering strict_sorted greeting_store ''greeting'' ''price'' [(''item'', ''widget'')]
            = Success r
          \<and> rendered_prompt r = ''Cost: $5 for widget'' \<and> missing_variables r = [])
   \<and> (\<exists>r r'. render strict_sorted ''5 each'' [] = Inr r \<and> render strict_sorted ''$$5 each'' [] = Inr r'
          \<and> rendered_prompt r' = ''$'' @ rendered_prompt r
          \<and> missing_variables r' = missing_variables r \<and> template_variables r' = template_variables r)
   \<and> (\<exists>r r'. render strict_sorted ''5 each'' [] = Inr r \<and> render strict_sorted ''$5 each'' [] = Inr r'
          \<and> rendered_prompt r' = ''$'' @ rendered_prompt r
          \<and> missing_variables r' = missing_variables r \<and> template_variables r' = template_variables r)
   \<and> (\<exists>r r'. render strict_sorted ''5 each'' [] = Inr r \<and> render strict_sorted ''x5 each'' [] = Inr r'
          \<and> rendered_prompt r' = ''x'' @ rendered_prompt r
          \<and> missing_variables r' = missing_variables r \<and> template_variables r' = template_variables r)"
proof -
  have v: "valid_iter strict_sorted" by (rule valid_iter_sorted)
  have g: "get_category strict_sorted greeting_store ''greeting'' = Inr (Some greeting)"
    by (rule get_category_greeting)
  have m: "map_of (c_templates greeting) ''price'' = Some price_template"
    by (simp add: greeting_def)
  have c: "t_content price_template = ''Cost: $$5 for $item''"
    by (simp add: price_template_def)
  have r: "''5 each'' = [] \<or> (hd ''5 each'' \<noteq> CHR ''$'' \<and> hd ''5 each'' \<noteq> CHR ''{'' \<and> \<not> idstart (hd ''5 each''))"
    by (simp add: idstart_def)
  have x: "CHR ''x'' \<noteq> CHR ''$''" by simp
  note t = escaping [OF v, of greeting_store "''greeting''" greeting "''price''" price_template
      "''5 each''" "[]" "CHR ''x''"]
  from t g m c have e: "\<exists>r. test_prompt_rendering strict_sorted greeting_store ''greeting'' ''price''
              [(''item'', ''widget'')] = Success r
          \<and> rendered_prompt r = ''Cost: $5 for widget'' \<and> missing_variables r = []"
    by blast
  from t have d1: "\<exists>r r'. render strict_sorted ''5 each'' [] = Inr r
          \<and> render strict_sorted (''$$'' @ ''5 each'') [] = Inr r'
          \<and> rendered_prompt r' = ''$'' @ rendered_prompt r
          \<and> missing_variables r' = missing_variables r \<and> template_variables r' = template_variables r"
    by blast
  from t r have d2: "\<exists>r r'. render strict_sorted ''5 each'' [] = Inr r
          \<and> render strict_sorted (CHR ''$'' # ''5 each'') [] = Inr r'
          \<and> rendered_prompt r' = CHR ''$'' # rendered_prompt r
          \<and> missing_variables r' = missing_variables r \<and> template_variables r' = template_variables r"
    by blast
  from t x have d3: "\<exists>r r'. render strict_sorted ''5 each'' [] = Inr r
          \<and> render strict_sorted (CHR ''x'' # ''5 each'') [] = Inr r'
          \<and> rendered_prompt r' = CHR ''x'' # rendered_prompt r
          \<and> missing_variables r' = missing_variables r \<and> template_variables r' = template_variables r"
    by blast
  from v g m c e d1 d2 d3 show ?thesis by simp
qed

text \<open>
  C4, as the code has it. The missing list holds exactly the identifiers of the content
  (each once, as \<open>get_identifiers\<close> returns them) that are no provided key, each once; it
  is the listing of a set difference, in the order Python iterates over that set.
\<close>

theorem missing_is_set_difference:
  assumes "valid_iter rt"
  shows "\<exists>ids r. get_identifiers content = Inr ids \<and> distinct ids
           \<and> render rt content vars = Inr r
           \<and> missing_variables r = list_of_diff rt ids (map fst vars)
           \<and> set (missing_variables r) = {i \<in> set ids. i \<notin> fst ` set vars}
           \<and> distinct (missing_variables r)
           \<and> (get_category rt s cat = Inr (Some pc) \<and> map_of (c_templates pc) tn = Some t
                 \<and> t_content t = content
               \<longrightarrow> test_prompt_rendering rt s cat tn vars = Success r)"
proof -
  from render_total [of content rt vars] obtain ids r where
    ids: "get_identifiers content = Inr ids" "set ids = seg_names (scan content)" "distinct ids"
    and r: "render rt content vars = Inr r"
    and m: "missing_variables r = list_of_diff rt ids (map fst vars)"
    by auto
  have s: "set (missing_variables r) = {i \<in> set ids. i \<notin> fst ` set vars}"
    using missing_set(1) [OF assms r] ids(2) by auto
  have d: "distinct (missing_variables r)" using missing_set(2) [OF assms r] .
  have f: "test_prompt_rendering rt s cat tn vars = Success r"
    if "get_category rt s cat = Inr (Some pc) \<and> map_of (c_templates pc) tn = Some t \<and> t_content t = content"
    using that r test_prompt_rendering_found [of rt s cat pc tn t vars r] by simp
  from ids(1,3) r m s d f show ?thesis by blast
qed

theorem missing_is_set_difference_witness:
  "valid_iter strict_sorted
   \<and> get_category strict_sorted order_store ''order'' \<noteq> Inr None
   \<and> (\<exists>r. test_prompt_rendering strict_sorted order_store ''order'' ''t'' [(''a'', ''1'')] = Success r
          \<and> set (missing_variables r) = {''b''} \<and> distinct (missing_variables r))"
proof -
  have v: "valid_iter strict_sorted" by (rule valid_iter_sorted)
  let ?t = "\<lparr>t_content = ''$b $a'', t_description = Some [], t_variables = [],
              t_model = Some ''claude-3-5-sonnet-20241022'', t_max_tokens = Some 1000\<rparr>"
  let ?pc = "\<lparr>c_version = ''1.0.0'', c_category = ''order'', c_description = [],
           c_templates = [(''t'', ?t)]\<rparr>"
  have g: "get_category strict_sorted order_store ''order'' = Inr (Some ?pc)" by (rule get_category_order)
  have m: "map_of (c_templates ?pc) ''t'' = Some ?t" by simp
  have c: "t_content ?t = ''$b $a''" by simp
  from missing_is_set_difference [OF v, of "''$b $a''" "[(''a'', ''1'')]" order_store "''order''" ?pc "''t''" ?t]
  obtain ids r where
    i: "get_identifiers ''$b $a'' = Inr ids"
    and s: "set (missing_variables r) = {i \<in> set ids. i \<notin> fst ` set [(''a'', ''1'')]}"
    and d: "distinct (missing_variables r)"
    and t: "get_category strict_sorted order_store ''order'' = Inr (Some ?pc) \<and> map_of (c_templates ?pc) ''t'' = Some ?t
              \<and> t_content ?t = ''$b $a''
            \<longrightarrow> test_prompt_rendering strict_sorted order_store ''order'' ''t'' [(''a'', ''1'')] = Success r"
    by blast
  from i have ids: "ids = [''b'', ''a'']" by (simp add: identifiers_order)
  from s ids have s': "set (missing_variables r) = {''b''}" by auto
  from t g m c have "test_prompt_rendering strict_sorted order_store ''order'' ''t'' [(''a'', ''1'')] = Success r"
    by blast
  with v g s' d show ?thesis by simp
qed

text \<open>
  C4, as stated, fails: the missing list need not follow the order of first appearance.
  With a runtime that iterates over a set in sorted order, the content \<open>$b $a\<close> and no
  variables, the identifiers appear as \<open>b\<close>, \<open>a\<close> and the missing list is \<open>a\<close>, \<open>b\<close>.
\<close>

theorem missing_order_counterexample:
  "valid_iter strict_sorted
   \<and> get_identifiers ''$b $a'' = Inr [''b'', ''a'']
   \<and> test_prompt_rendering strict_sorted order_store ''order'' ''t'' []
       = Success \<lparr>rendered_prompt = ''$b $a'', missing_variables = [''a'', ''b''],
                  template_variables = [''a'', ''b''], provided_variables = []\<rparr>
   \<and> [''a'', ''b''] \<noteq> [''b'', ''a'']"
proof -
  have r: "render strict_sorted ''$b $a'' []
             = Inr \<lparr>rendered_prompt = ''$b $a'', missing_variables = [''a'', ''b''],
                    template_variables = [''a'', ''b''], provided_variables = []\<rparr>"
    by (simp add: render_def identifiers_order substitute_order strict_sorted_def)
  show ?thesis
    by (simp add: valid_iter_sorted identifiers_order test_prompt_rendering_def get_category_order r)
qed

subsection \<open>Enumeration and summary\<close>

text \<open>
  \<open>list_categories\<close> is sorted, is empty on an empty directory, and lists every category
  saved under a non-empty name without separator. It lists the stem of every file of the
  directory whose name ends in \<open>.json\<close>, whatever wrote the file.
\<close>

lemma list_categories_sorted: "sorted (list_categories s)"
  by (simp add: list_categories_def)

lemma list_categories_empty: "entries s = [] \<Longrightarrow> list_categories s = []"
  by (simp add: list_categories_def glob_json_def)

lemma set_list_categories: "set (list_categories s) = stem ` set (glob_json s)"
  by (simp add: list_categories_def)

lemma rfind_dot_json:
  assumes "n \<noteq> []"
  shows "rfind (n @ ''.json'') CHR ''.'' = Some (length n)"
  by (simp add: rfind_def)

lemma stem_file_path:
  assumes "n \<noteq> []" and "CHR ''/'' \<notin> set n"
  shows "stem (n @ ''.json'') = n"
proof -
  have "takeWhile (\<lambda>c. c \<noteq> CHR ''/'') (rev (n @ ''.json'')) = rev (n @ ''.json'')"
    by (rule takeWhile_eq_all_conv [THEN iffD2]) (use assms(2) in auto)
  then have p: "path_name (n @ ''.json'') = n @ ''.json''"
    by (simp only: path_name_def rev_rev_ident)
  show ?thesis using assms(1) by (simp add: stem_def p rfind_dot_json Let_def)
qed

lemma saved_category_listed:
  assumes "n \<noteq> []" and "CHR ''/'' \<notin> set n"
    and "map_of (entries s) (get_category_file_path n) = Some f"
  shows "n \<in> set (list_categories s)"
proof -
  from assms(2,3) have "n @ ''.json'' \<in> fst ` set (entries s)"
    by (auto simp: file_path_plain dest: map_of_SomeD intro: rev_image_eqI)
  with assms(2) have "n @ ''.json'' \<in> set (glob_json s)"
    by (simp add: glob_json_def fnmatch_json_def)
  then have "stem (n @ ''.json'') \<in> set (list_categories s)"
    by (simp add: set_list_categories)
  then show ?thesis by (simp add: stem_file_path [OF assms(1,2)])
qed

lemma stem_examples:
  "stem ''greeting.json'' = ''greeting''"
  "stem ''greeting_20250101_120000.backup.json'' = ''greeting_20250101_120000.backup''"
  "stem ''.json'' = ''.json''"
  "stem ''.json.json'' = ''.json''"
  by (simp_all add: stem_def path_name_def rfind_def)

text \<open>
  C2. The claim that \<open>list_categories\<close> returns exactly the names of the persisted
  categories, and never a file made by another operation, fails on the code:
  \<open>backup_category\<close> names its copy \<open><category>_<timestamp>.backup.json\<close>, which the
  pattern \<open>*.json\<close> matches, so after a timestamped backup of \<open>greeting\<close> the backup
  is listed as a second category.
\<close>

theorem timestamped_backup_listed:
  "backup_category greeting_store ''greeting'' ''20250101_120000''
     = Inr (True, write_file greeting_store ''greeting_20250101_120000.backup.json''
                    (Doc (category_data greeting)))
   \<and> list_categories (write_file greeting_store ''greeting_20250101_120000.backup.json''
                        (Doc (category_data greeting)))
       = [''greeting'', ''greeting_20250101_120000.backup'']"
proof -
  have e: "map_of (entries greeting_store) ''greeting.json'' = Some (Doc (category_data greeting))"
    by (simp add: greeting_store_def map_of_write_file_same)
  have w: "writable greeting_store = (\<lambda>p. True)"
    by (simp add: greeting_store_def)
  have n: "with_name ''greeting.json'' ''greeting_20250101_120000.backup.json''
             = Inr ''greeting_20250101_120000.backup.json''"
    by (simp add: with_name_def path_parent_def path_name_def)
  have b: "backup_category greeting_store ''greeting'' ''20250101_120000''
     = Inr (True, write_file greeting_store ''greeting_20250101_120000.backup.json''
                    (Doc (category_data greeting)))"
    by (simp add: backup_category_def file_path_examples exists_def e n copy_file_def w)
  have g: "glob_json (write_file greeting_store ''greeting_20250101_120000.backup.json''
                        (Doc (category_data greeting)))
             = [''greeting.json'', ''greeting_20250101_120000.backup.json'']"
    by (simp add: glob_json_def write_file_def greeting_store_def empty_store_simps fnmatch_json_def)
  have l: "list_categories (write_file greeting_store ''greeting_20250101_120000.backup.json''
                        (Doc (category_data greeting)))
       = [''greeting'', ''greeting_20250101_120000.backup'']"
    by (simp add: list_categories_def g stem_examples)
  from b l show ?thesis by simp
qed

text \<open>
  When the listed names are distinct and \<open>get_category\<close> raises on none of them,
  \<open>get_all_prompts\<close> has one entry for every listed category that loads, in the listed
  order, none for one that does not, and its totals are the number of entries and the sum
  of their template counts.
\<close>

lemma loaded_simps [simp]:
  "loaded rt s [] = []"
  "loaded rt s (n # names)
     = (case get_category rt s n of Inr (Some c) \<Rightarrow> (n, c) # loaded rt s names
        | _ \<Rightarrow> loaded rt s names)"
  by (simp_all add: loaded_def List.map_filter_simps split: sum.splits option.splits)

lemma get_all_prompts_loop_distinct:
  assumes "distinct names" and "set names \<inter> fst ` set acc = {}"
    and "\<forall>nm\<in>set names. \<forall>e. get_category rt s nm \<noteq> Inl e"
  shows "get_all_prompts_loop rt s names (acc, n)
           = Inr (acc @ map (\<lambda>(nm, c). (nm, summary_of c)) (loaded rt s names),
                  n + sum_list (map (\<lambda>(nm, c). length (c_templates c)) (loaded rt s names)))"
  using assms
proof (induction names arbitrary: acc n)
  case Nil
  then show ?case by simp
next
  case (Cons nm names)
  from Cons.prems have d: "distinct names" and f: "nm \<notin> fst ` set acc" and nn: "nm \<notin> set names"
    and i: "set names \<inter> fst ` set acc = {}"
    and r: "\<forall>nm\<in>set names. \<forall>e. get_category rt s nm \<noteq> Inl e"
    and r0: "\<forall>e. get_category rt s nm \<noteq> Inl e" by auto
  from r0 obtain x where x: "get_category rt s nm = Inr x" by (cases "get_category rt s nm") auto
  show ?case
  proof (cases x)
    case None
    with x Cons.IH [OF d i r, of n] show ?thesis by simp
  next
    case (Some c)
    have u: "AList.update nm (summary_of c) acc = acc @ [(nm, summary_of c)]"
      using f by (rule update_fresh)
    have i': "set names \<inter> fst ` set (acc @ [(nm, summary_of c)]) = {}"
      using i nn by auto
    from Cons.IH [OF d i' r, of "n + length (c_templates c)"] Some x u show ?thesis
      by (simp add: summary_of_def)
  qed
qed

lemma get_all_prompts_distinct:
  assumes "distinct (list_categories s)"
    and "\<forall>nm\<in>set (list_categories s). \<forall>e. get_category rt s nm \<noteq> Inl e"
  shows "\<exists>r. get_all_prompts rt s = Inr r
           \<and> categories r = map (\<lambda>(nm, c). (nm, summary_of c)) (loaded rt s (list_categories s))
           \<and> total_categories r = length (categories r)
           \<and> total_templates r = sum_list (map (\<lambda>(nm, x). template_count x) (categories r))"
proof -
  have l: "get_all_prompts_loop rt s (list_categories s) ([], 0)
             = Inr (map (\<lambda>(nm, c). (nm, summary_of c)) (loaded rt s (list_categories s)),
                    sum_list (map (\<lambda>(nm, c). length (c_templates c)) (loaded rt s (list_categories s))))"
    using get_all_prompts_loop_distinct [OF assms(1) _ assms(2), of "[]" 0] by simp
  have m: "map ((\<lambda>(nm, x). template_count x) \<circ> (\<lambda>(nm, c). (nm, summary_of c))) xs
          = map (\<lambda>(nm, c). length (c_templates c)) xs" for xs :: "(string \<times> PromptCategory) list"
    by (induction xs) (auto simp: summary_of_def)
  show ?thesis by (simp add: get_all_prompts_def l m)
qed

text \<open>
  C8. The claim that the total template count is the sum of the template counts of the
  included categories fails on the code when \<open>list_categories\<close> repeats a name: the
  files \<open>.json\<close> and \<open>.json.json\<close> both have the stem \<open>.json\<close>, the category stored
  in \<open>.json.json\<close> is loaded twice, entered once and counted twice.
\<close>

theorem duplicate_names_counted_twice:
  "save_category empty_store [] greeting
     = (True, write_file empty_store ''.json'' (Doc (category_data greeting)))
   \<and> save_category (write_file empty_store ''.json'' (Doc (category_data greeting))) ''.json'' greeting
     = (True, dot_store)
   \<and> list_categories dot_store = [''.json'', ''.json'']
   \<and> get_all_prompts strict_sorted dot_store
       = Inr \<lparr>categories =
                [(''.json'', \<lparr>s_version = ''1.0.0'', s_description = ''Greetings'', template_count = 2,
                              template_names = [''hello'', ''price'']\<rparr>)],
              total_categories = 1, total_templates = 4\<rparr>"
proof -
  have a: "save_category empty_store [] greeting
     = (True, write_file empty_store ''.json'' (Doc (category_data greeting)))"
    by (simp add: save_category_def exists_def file_path_examples dumpable_greeting)
  have b: "save_category (write_file empty_store ''.json'' (Doc (category_data greeting))) ''.json'' greeting
     = (True, dot_store)"
    by (simp add: save_category_def exists_def file_path_examples dumpable_greeting write_file_def
        dot_store_def Let_def)
  have g: "glob_json dot_store = [''.json'', ''.json.json'']"
    by (simp add: glob_json_def dot_store_def write_file_def empty_store_simps fnmatch_json_def)
  have l: "list_categories dot_store = [''.json'', ''.json'']"
    by (simp add: list_categories_def g stem_examples)
  have d: "distinct (map fst (c_templates greeting))" by (simp add: greeting_def)
  have "map_of (entries dot_store) (get_category_file_path ''.json'') = Some (Doc (category_data greeting))"
    by (simp add: dot_store_def file_path_examples map_of_write_file_same)
  then have c: "get_category strict_sorted dot_store ''.json'' = Inr (Some greeting)"
    by (simp add: get_category_present read_category_roundtrip [OF d])
  have t: "c_templates greeting = [(''hello'', hello_template), (''price'', price_template)]"
    "c_version greeting = ''1.0.0''" "c_description greeting = ''Greetings''"
    by (simp_all add: greeting_def)
  have p: "get_all_prompts strict_sorted dot_store
       = Inr \<lparr>categories =
                [(''.json'', \<lparr>s_version = ''1.0.0'', s_description = ''Greetings'', template_count = 2,
                              template_names = [''hello'', ''price'']\<rparr>)],
              total_categories = 1, total_templates = 4\<rparr>"
    by (simp add: get_all_prompts_def l c t)
  from a b l p show ?thesis by simp
qed

end
